theory Spec2Isabelle
  imports Main "HOL-Library.Char_ord" "HOL-Library.List_Lexorder" "HOL-Library.Product_Lexorder"
begin

section \<open>The schema model\<close>

text \<open>
  The generator of \<^verbatim>\<open>src/readme-factory.ts\<close> reads a basketry service: interfaces with
  methods, a registry of types and a registry of enums. The wrappers \<^verbatim>\<open>{ value: ... }\<close> around
  names are dropped; a name is its string. Strings are lists of ASCII characters.

  A description is absent, a single line, or an array of lines; the source tells the three
  apart with \<^verbatim>\<open>Array.isArray\<close> and a truthiness test.
\<close>

datatype Description = NoDescription | Line string | Lines "string list"

text \<open>
  \<^verbatim>\<open>Parameter | Property | ReturnType\<close> share the fields of a type reference; parameters and
  properties add a name, a description and the rule that makes them required.
\<close>

record ReturnType =
  typeName :: string
  isPrimitive :: bool
  isArray :: bool

record Parameter = ReturnType +
  p_name :: string
  p_description :: Description
  required :: bool

type_synonym Property = Parameter

record Type =
  t_name :: string
  t_description :: Description
  properties :: "Property list"

record Enum =
  e_name :: string
  e_values :: "string list"

record Method =
  m_name :: string
  parameters :: "Parameter list"
  returnType :: "ReturnType option"
  m_description :: Description

record Interface =
  i_name :: string
  int_methods :: "Method list"

record Service =
  interfaces :: "Interface list"
  svc_types :: "Type list"
  svc_enums :: "Enum list"

record File =
  path :: "string list"
  contents :: string

section \<open>Collaborators outside the repository\<close>

text \<open>
  The case conversions of the \<^verbatim>\<open>case\<close> package, the name factory of \<^verbatim>\<open>@basketry/sorbet\<close>,
  the banner of \<^verbatim>\<open>basketry\<close> and the string collation of the JavaScript runtime are not part
  of the repository. They are parameters of the model: every function below takes them in an
  environment, and the general theorems hold for every environment. The generator options are
  fixed for a run and only reach these collaborators, so they are part of the environment.
\<close>

record Env =
  localeCompare :: "string \<Rightarrow> string \<Rightarrow> int"
  pascal :: "string \<Rightarrow> string"
  snake :: "string \<Rightarrow> string"
  title :: "string \<Rightarrow> string"
  buildInterfaceName :: "Interface \<Rightarrow> string"
  buildInterfaceNamespace :: "Service \<Rightarrow> string"
  buildMethodName :: "Method \<Rightarrow> string"
  buildParameterName :: "Parameter \<Rightarrow> string"
  buildPropertyName :: "Property \<Rightarrow> string"
  sorbet_buildTypeName :: "Service \<Rightarrow> ReturnType \<Rightarrow> bool \<Rightarrow> string"
  buildTypeNamespace :: "Service \<Rightarrow> string"
  warning :: "Service \<Rightarrow> string list"

text \<open>
  Modelled from the spec: \<^verbatim>\<open>isRequired\<close> of basketry, which the spec describes as the flag
  \<^verbatim>\<open>isRequired\<close> of a parameter or property.
\<close>

definition isRequired :: "Parameter \<Rightarrow> bool" where
  "isRequired p = required p"

text \<open>
  Modelled from the spec: \<^verbatim>\<open>getTypeByName\<close> and \<^verbatim>\<open>getEnumByName\<close> of basketry, a pure
  lookup by exact name match against the registries of the model, with \<open>None\<close> for a name
  that is absent.
\<close>

definition getTypeByName :: "Service \<Rightarrow> string \<Rightarrow> Type option" where
  "getTypeByName svc n = find (\<lambda>t. t_name t = n) (svc_types svc)"

definition getEnumByName :: "Service \<Rightarrow> string \<Rightarrow> Enum option" where
  "getEnumByName svc n = find (\<lambda>e. e_name e = n) (svc_enums svc)"

section \<open>Runtime primitives\<close>

text \<open>
  \<^verbatim>\<open>String.prototype.split\<close> with a non-empty separator: the pieces between the leftmost
  occurrences of the separator; an empty string gives one empty piece.
\<close>

function split_acc :: "string \<Rightarrow> string \<Rightarrow> string \<Rightarrow> string list" where
  "split_acc sep acc [] = [rev acc]"
| "split_acc sep acc (c # cs) =
     (if sep \<noteq> [] \<and> take (length sep) (c # cs) = sep
      then rev acc # split_acc sep [] (drop (length sep) (c # cs))
      else split_acc sep (c # acc) cs)"
  by pat_completeness auto
termination
  by (relation "measure (\<lambda>(sep, acc, s). length s)") auto

definition split :: "string \<Rightarrow> string \<Rightarrow> string list" where
  "split sep s = split_acc sep [] s"

text \<open>\<^verbatim>\<open>Array.prototype.join\<close>.\<close>

fun join :: "string \<Rightarrow> string list \<Rightarrow> string" where
  "join sep [] = []"
| "join sep [x] = x"
| "join sep (x # y # zs) = x @ sep @ join sep (y # zs)"

text \<open>
  \<^verbatim>\<open>toLocaleLowerCase\<close> on ASCII text: the letters A to Z go to a to z, every other character
  is kept.
\<close>

definition upper_letters :: string where
  "upper_letters = ''ABCDEFGHIJKLMNOPQRSTUVWXYZ''"

definition lower_letters :: string where
  "lower_letters = ''abcdefghijklmnopqrstuvwxyz''"

definition toLowerChar :: "char \<Rightarrow> char" where
  "toLowerChar c = (case map_of (zip upper_letters lower_letters) c of None \<Rightarrow> c | Some l \<Rightarrow> l)"

definition toLocaleLowerCase :: "string \<Rightarrow> string" where
  "toLocaleLowerCase s = map toLowerChar s"

text \<open>
  \<^verbatim>\<open>Array.prototype.sort\<close> with a comparison function. ECMAScript requires the sort to be
  stable, so for a consistent comparison function the result is the stable sorted
  permutation, computed here by insertion: an element goes before the first later element it
  does not compare greater than.
\<close>

fun insort_cmp :: "('a \<Rightarrow> 'a \<Rightarrow> int) \<Rightarrow> 'a \<Rightarrow> 'a list \<Rightarrow> 'a list" where
  "insort_cmp c x [] = [x]"
| "insort_cmp c x (y # ys) = (if c x y \<le> 0 then x # y # ys else y # insort_cmp c x ys)"

definition sort_cmp :: "('a \<Rightarrow> 'a \<Rightarrow> int) \<Rightarrow> 'a list \<Rightarrow> 'a list" where
  "sort_cmp c xs = foldr (insort_cmp c) xs []"

text \<open>
  \<^verbatim>\<open>Set.prototype.add\<close> on a set iterated in insertion order: a member is not added again.
  Every object the generator adds is the result of a registry lookup by name, so two of them
  are the same object exactly when they are equal as values.
\<close>

definition set_add :: "'a \<Rightarrow> 'a list \<Rightarrow> 'a list" where
  "set_add x s = (if x \<in> set s then s else s @ [x])"

text \<open>
  Modelled from the spec: \<^verbatim>\<open>from\<close> of \<^verbatim>\<open>@basketry/sorbet/lib/utils\<close>, which turns the
  rendered lines into the newline-joined text of a file.
\<close>

definition from_lines :: "string list \<Rightarrow> string" where
  "from_lines ls = join [CHR 0x0A] ls"

section \<open>The name factory of the repository\<close>

text \<open>\<^verbatim>\<open>buildInterfaceDocsFilepath\<close> of \<^verbatim>\<open>src/name-factory.ts\<close>.\<close>

definition buildInterfaceDocsFilepath :: "Env \<Rightarrow> Interface \<Rightarrow> Service \<Rightarrow> string list" where
  "buildInterfaceDocsFilepath env intf svc =
     map (snake env) (split ''::'' (buildInterfaceNamespace env svc))
       @ [snake env (buildInterfaceName env intf) @ ''.md'']"

section \<open>The free functions of the generator\<close>

definition sortParameters :: "Parameter list \<Rightarrow> Parameter list" where
  "sortParameters ps =
     sort_cmp (\<lambda>a b. (if isRequired a then 0 else 1) - (if isRequired b then 0 else 1)) ps"

definition anchor :: "string \<Rightarrow> string" where
  "anchor n = ''#'' @ join ''-'' (split '' '' (toLocaleLowerCase n))"

text \<open>
  \<^verbatim>\<open>traverseType\<close> yields the type and then, for each non-primitive property whose type
  resolves, everything the traversal of that type yields. Nothing stops it from entering a
  type again, so the recursion need not end. The first argument bounds the depth of the
  recursion; \<open>None\<close> says the bound was reached before the traversal was over.
\<close>

fun yieldAll :: "('a \<Rightarrow> 'b list option) \<Rightarrow> 'a list \<Rightarrow> 'b list option" where
  "yieldAll f [] = Some []"
| "yieldAll f (x # xs) =
     (case f x of
        None \<Rightarrow> None
      | Some ys \<Rightarrow> (case yieldAll f xs of None \<Rightarrow> None | Some zs \<Rightarrow> Some (ys @ zs)))"

fun traverseType :: "nat \<Rightarrow> Service \<Rightarrow> Type \<Rightarrow> Type list option" where
  "traverseType 0 svc t = None"
| "traverseType (Suc n) svc t =
     (case yieldAll
        (\<lambda>prop.
           if \<not> isPrimitive prop
           then (case getTypeByName svc (typeName prop) of
                   None \<Rightarrow> Some []
                 | Some subtype \<Rightarrow> traverseType n svc subtype)
           else Some [])
        (properties t) of
        None \<Rightarrow> None
      | Some ys \<Rightarrow> Some (t # ys))"

section \<open>The builder\<close>

text \<open>
  The methods of the class \<^verbatim>\<open>Builder\<close>; the fields \<^verbatim>\<open>service\<close> and \<^verbatim>\<open>options\<close> of the
  object are the arguments \<open>svc\<close> and \<open>env\<close>.
\<close>

definition methods :: "Env \<Rightarrow> Interface \<Rightarrow> Method list" where
  "methods env intf =
     sort_cmp (\<lambda>a b. localeCompare env (m_name a) (m_name b)) (int_methods intf)"

text \<open>
  \<^verbatim>\<open>Builder.types\<close>: the loops over the methods and their parameters, with the set
  \<^verbatim>\<open>foundTypes\<close> threaded through. A parameter whose type does not resolve is skipped
  (\<^verbatim>\<open>continue\<close>).
\<close>

fun types_params :: "nat \<Rightarrow> Service \<Rightarrow> Parameter list \<Rightarrow> Type list \<Rightarrow> Type list option" where
  "types_params n svc [] foundTypes = Some foundTypes"
| "types_params n svc (param # ps) foundTypes =
     (if \<not> isPrimitive param
      then (case getTypeByName svc (typeName param) of
              None \<Rightarrow> types_params n svc ps foundTypes
            | Some paramType \<Rightarrow>
                (case traverseType n svc paramType of
                   None \<Rightarrow> None
                 | Some ys \<Rightarrow> types_params n svc ps (fold set_add ys foundTypes)))
      else types_params n svc ps foundTypes)"

definition types_return :: "nat \<Rightarrow> Service \<Rightarrow> Method \<Rightarrow> Type list \<Rightarrow> Type list option" where
  "types_return n svc method foundTypes =
     (case returnType method of
        None \<Rightarrow> Some foundTypes
      | Some rt \<Rightarrow>
          if \<not> isPrimitive rt
          then (case getTypeByName svc (typeName rt) of
                  None \<Rightarrow> Some foundTypes
                | Some t \<Rightarrow>
                    (case traverseType n svc t of
                       None \<Rightarrow> None
                     | Some ys \<Rightarrow> Some (fold set_add ys foundTypes)))
          else Some foundTypes)"

fun types_methods :: "nat \<Rightarrow> Service \<Rightarrow> Method list \<Rightarrow> Type list \<Rightarrow> Type list option" where
  "types_methods n svc [] foundTypes = Some foundTypes"
| "types_methods n svc (method # ms) foundTypes =
     (case types_params n svc (parameters method) foundTypes of
        None \<Rightarrow> None
      | Some found1 \<Rightarrow>
          (case types_return n svc method found1 of
             None \<Rightarrow> None
           | Some found2 \<Rightarrow> types_methods n svc ms found2))"

definition types :: "nat \<Rightarrow> Env \<Rightarrow> Service \<Rightarrow> Interface \<Rightarrow> Type list option" where
  "types n env svc intf =
     (case types_methods n svc (int_methods intf) [] of
        None \<Rightarrow> None
      | Some foundTypes \<Rightarrow>
          Some (sort_cmp (\<lambda>a b. localeCompare env (t_name a) (t_name b)) foundTypes))"

text \<open>\<^verbatim>\<open>Builder.enums\<close>: the enums of parameters and return types, then those of the
  properties of every type that \<open>types\<close> found.\<close>

fun enums_refs :: "Service \<Rightarrow> 'a ReturnType_scheme list \<Rightarrow> Enum list \<Rightarrow> Enum list" where
  "enums_refs svc [] foundEnums = foundEnums"
| "enums_refs svc (r # rs) foundEnums =
     (if \<not> isPrimitive r
      then (case getEnumByName svc (typeName r) of
              None \<Rightarrow> enums_refs svc rs foundEnums
            | Some e \<Rightarrow> enums_refs svc rs (set_add e foundEnums))
      else enums_refs svc rs foundEnums)"

fun enums_methods :: "Service \<Rightarrow> Method list \<Rightarrow> Enum list \<Rightarrow> Enum list" where
  "enums_methods svc [] foundEnums = foundEnums"
| "enums_methods svc (method # ms) foundEnums =
     enums_methods svc ms
       (enums_refs svc (case returnType method of None \<Rightarrow> [] | Some rt \<Rightarrow> [rt])
          (enums_refs svc (parameters method) foundEnums))"

fun enums_types :: "Service \<Rightarrow> Type list \<Rightarrow> Enum list \<Rightarrow> Enum list" where
  "enums_types svc [] foundEnums = foundEnums"
| "enums_types svc (t # ts) foundEnums =
     enums_types svc ts (enums_refs svc (properties t) foundEnums)"

definition enums :: "nat \<Rightarrow> Env \<Rightarrow> Service \<Rightarrow> Interface \<Rightarrow> Enum list option" where
  "enums n env svc intf =
     (case types n env svc intf of
        None \<Rightarrow> None
      | Some ts \<Rightarrow>
          Some (sort_cmp (\<lambda>a b. localeCompare env (e_name a) (e_name b))
                  (enums_types svc ts (enums_methods svc (int_methods intf) []))))"

text \<open>\<^verbatim>\<open>Builder.buildTypeName\<close> strips the namespace and the two colons after it from the
  fully qualified name of a type that is not primitive.\<close>

definition buildTypeName :: "Env \<Rightarrow> Service \<Rightarrow> 'a ReturnType_scheme \<Rightarrow> bool \<Rightarrow> string" where
  "buildTypeName env svc ty skipArrayify =
     (let fullyQualifiedName = sorbet_buildTypeName env svc (ReturnType.truncate ty) skipArrayify
      in if isPrimitive ty then fullyQualifiedName
         else drop (length (buildTypeNamespace env svc) + 2) fullyQualifiedName)"

definition buildLinkedTypeName :: "Env \<Rightarrow> Service \<Rightarrow> 'a ReturnType_scheme \<Rightarrow> string" where
  "buildLinkedTypeName env svc param =
     (let tn = buildTypeName env svc param True
      in if isPrimitive param then tn @ (if isArray param then ''[]'' else '''')
         else ''['' @ tn @ '']('' @ anchor tn @ '')'' @ (if isArray param then ''[]'' else ''''))"

definition buildParameterDescription :: "Parameter \<Rightarrow> string" where
  "buildParameterDescription param =
     (case p_description param of
        NoDescription \<Rightarrow> ''''
      | Lines ls \<Rightarrow> '' - '' @ join '' '' ls
      | Line l \<Rightarrow> '' - '' @ l)"

definition buildParameter :: "Env \<Rightarrow> Service \<Rightarrow> Parameter \<Rightarrow> string" where
  "buildParameter env svc param =
     ''- `'' @ buildParameterName env param @ ''` '' @ buildLinkedTypeName env svc param
       @ (if isRequired param then '''' else '' (optional)'')
       @ buildParameterDescription param"

definition buildProperty :: "Env \<Rightarrow> Service \<Rightarrow> Property \<Rightarrow> string" where
  "buildProperty env svc prop =
     ''- `'' @ buildPropertyName env prop @ ''` '' @ buildLinkedTypeName env svc prop
       @ (if isRequired prop then '''' else '' (optional)'')
       @ buildParameterDescription prop"

definition buildMethodDefinition :: "Env \<Rightarrow> Method \<Rightarrow> string" where
  "buildMethodDefinition env method =
     buildMethodName env method
       @ (if parameters method \<noteq> []
          then ''('' @ join '', ''
                 (map (\<lambda>param. buildParameterName env param @ '':''
                         @ (if isRequired param then '''' else '' nil''))
                    (sortParameters (parameters method))) @ '')''
          else '''')"

definition description_lines :: "Description \<Rightarrow> string list" where
  "description_lines d =
     (case d of
        Lines ls \<Rightarrow> concat (map (\<lambda>l. ['''', l]) ls)
      | Line l \<Rightarrow> ['''', l]
      | NoDescription \<Rightarrow> [])"

definition buildMethodDocs :: "Env \<Rightarrow> Service \<Rightarrow> Method \<Rightarrow> string list" where
  "buildMethodDocs env svc method =
     [''### '' @ buildMethodName env method, '''', ''`'' @ buildMethodDefinition env method @ ''`'']
       @ (if parameters method \<noteq> []
          then '''' # map (buildParameter env svc) (parameters method) else [])
       @ (case returnType method of
            None \<Rightarrow> []
          | Some rt \<Rightarrow>
              ['''', ''Returns: '' @ buildLinkedTypeName env svc rt
                       @ (if isArray rt then ''[]'' else '''')])
       @ description_lines (m_description method)
       @ ['''']"

definition buildTypeDocs :: "Env \<Rightarrow> Service \<Rightarrow> Type \<Rightarrow> string list" where
  "buildTypeDocs env svc t =
     [''### '' @ pascal env (t_name t), '''',
      ''`'' @ buildTypeNamespace env svc @ ''::'' @ pascal env (t_name t) @ ''`'']
       @ description_lines (t_description t)
       @ (if properties t \<noteq> [] then '''' # map (buildProperty env svc) (properties t) else [])
       @ ['''']"

definition buildEnumDocs :: "Env \<Rightarrow> Service \<Rightarrow> Enum \<Rightarrow> string list" where
  "buildEnumDocs env svc e =
     [''### '' @ pascal env (e_name e), '''',
      ''`'' @ buildTypeNamespace env svc @ ''::'' @ pascal env (e_name e) @ ''`'']
       @ (if e_values e \<noteq> [] then '''' # map (\<lambda>v. ''- `'' @ v @ ''`'') (e_values e) else [])
       @ ['''']"

text \<open>The lines of the table of contents and of the three sections, for the sorted lists
  the builder computed.\<close>

definition toc_lines :: "Env \<Rightarrow> Method list \<Rightarrow> Type list \<Rightarrow> Enum list \<Rightarrow> string list" where
  "toc_lines env ms ts es =
     (if ms \<noteq> []
      then ''- Methods'' #
           map (\<lambda>method. ''  - ['' @ buildMethodName env method @ '']('' @
                            anchor (buildMethodName env method) @ '')'') ms
      else [])
     @ (if ts \<noteq> []
        then ''- Types'' #
             map (\<lambda>t. ''  - ['' @ pascal env (t_name t) @ '']('' @ anchor (t_name t) @ '')'') ts
        else [])
     @ (if es \<noteq> []
        then ''- Enums'' #
             map (\<lambda>e. ''  - ['' @ pascal env (e_name e) @ '']('' @ anchor (e_name e) @ '')'') es
        else [])"

definition buildToc :: "nat \<Rightarrow> Env \<Rightarrow> Service \<Rightarrow> Interface \<Rightarrow> string list option" where
  "buildToc n env svc intf =
     (case types n env svc intf of
        None \<Rightarrow> None
      | Some ts \<Rightarrow>
          (case enums n env svc intf of
             None \<Rightarrow> None
           | Some es \<Rightarrow> Some (toc_lines env (methods env intf) ts es)))"

definition warning_lines :: "Env \<Rightarrow> Service \<Rightarrow> string list" where
  "warning_lines env svc = [''<!--''] @ warning env svc @ [''--->'']"

definition section_lines ::
  "Env \<Rightarrow> Service \<Rightarrow> Method list \<Rightarrow> Type list \<Rightarrow> Enum list \<Rightarrow> string list" where
  "section_lines env svc ms ts es =
     (if ms \<noteq> [] then [''## Methods'', ''''] @ concat (map (buildMethodDocs env svc) ms) else [])
     @ (if ts \<noteq> [] then [''## Types'', ''''] @ concat (map (buildTypeDocs env svc) ts) else [])
     @ (if es \<noteq> [] then [''## Enums'', ''''] @ concat (map (buildEnumDocs env svc) es) else [])"

definition buildInterfaceDocs :: "nat \<Rightarrow> Env \<Rightarrow> Service \<Rightarrow> Interface \<Rightarrow> string list option" where
  "buildInterfaceDocs n env svc intf =
     (case types n env svc intf of
        None \<Rightarrow> None
      | Some ts \<Rightarrow>
          (case enums n env svc intf of
             None \<Rightarrow> None
           | Some es \<Rightarrow>
               (case buildToc n env svc intf of
                  None \<Rightarrow> None
                | Some toc \<Rightarrow>
                    Some (warning_lines env svc
                          @ ['''', ''# '' @ title env (buildInterfaceName env intf), '''']
                          @ toc @ ['''']
                          @ section_lines env svc (methods env intf) ts es))))"

definition buildInterfaceDocsFile :: "nat \<Rightarrow> Env \<Rightarrow> Service \<Rightarrow> Interface \<Rightarrow> File option" where
  "buildInterfaceDocsFile n env svc intf =
     (case buildInterfaceDocs n env svc intf of
        None \<Rightarrow> None
      | Some ls \<Rightarrow>
          Some \<lparr>path = buildInterfaceDocsFilepath env intf svc, contents = from_lines ls\<rparr>)"

text \<open>\<^verbatim>\<open>Builder.build\<close> maps the interfaces to their files; it returns once every file is
  built.\<close>

fun build :: "nat \<Rightarrow> Env \<Rightarrow> Service \<Rightarrow> Interface list \<Rightarrow> File list option" where
  "build n env svc [] = Some []"
| "build n env svc (intf # is) =
     (case buildInterfaceDocsFile n env svc intf of
        None \<Rightarrow> None
      | Some f \<Rightarrow> (case build n env svc is of None \<Rightarrow> None | Some fs \<Rightarrow> Some (f # fs)))"

definition generateDocs :: "nat \<Rightarrow> Env \<Rightarrow> Service \<Rightarrow> File list option" where
  "generateDocs n env svc = build n env svc (interfaces svc)"

section \<open>A concrete environment\<close>

text \<open>
  The examples below run the generator with one concrete choice of the collaborators. Its
  case conversions split a name into words at spaces, underscores, hyphens and before a
  capital that follows a small letter, as the \<^verbatim>\<open>case\<close> package does on such names.

  Its collation follows the root collation of the runtime on names made of ASCII letters and
  control characters: the control characters U+0000 to U+0008, U+000E to U+001F and U+007F
  are ignored, letters are compared without regard to case first, and a small letter goes
  before its capital on a tie. So \<^verbatim>\<open>'alpha'.localeCompare('Zeta')\<close> is negative although
  the code unit of \<^verbatim>\<open>Z\<close> is the smaller one, and a name compares equal to the same name
  with U+0001 put into it.
\<close>

definition isUpper :: "char \<Rightarrow> bool" where
  "isUpper c = (c \<in> set upper_letters)"

definition toUpperChar :: "char \<Rightarrow> char" where
  "toUpperChar c = (case map_of (zip lower_letters upper_letters) c of None \<Rightarrow> c | Some u \<Rightarrow> u)"

fun words_acc :: "string \<Rightarrow> string \<Rightarrow> string list" where
  "words_acc acc [] = (if acc = [] then [] else [rev acc])"
| "words_acc acc (c # cs) =
     (if c \<in> set '' _-'' then (if acc = [] then [] else [rev acc]) @ words_acc [] cs
      else if isUpper c \<and> acc \<noteq> [] \<and> \<not> isUpper (hd acc) then rev acc # words_acc [c] cs
      else words_acc (c # acc) cs)"

definition capitalize :: "string \<Rightarrow> string" where
  "capitalize w = (case w of [] \<Rightarrow> [] | c # cs \<Rightarrow> toUpperChar c # map toLowerChar cs)"

definition sample_pascal :: "string \<Rightarrow> string" where
  "sample_pascal s = concat (map capitalize (words_acc [] s))"

definition sample_snake :: "string \<Rightarrow> string" where
  "sample_snake s = join ''_'' (map toLocaleLowerCase (words_acc [] s))"

definition sample_title :: "string \<Rightarrow> string" where
  "sample_title s = join '' '' (map capitalize (words_acc [] s))"

definition ignorable :: "char \<Rightarrow> bool" where
  "ignorable c = (c < CHR 0x09 \<or> (CHR 0x0D < c \<and> c < CHR 0x20) \<or> c = CHR 0x7F)"

definition collation_key :: "string \<Rightarrow> string \<times> bool list" where
  "collation_key s =
     (map toLowerChar (filter (\<lambda>c. \<not> ignorable c) s),
      map isUpper (filter (\<lambda>c. \<not> ignorable c) s))"

definition sample_localeCompare :: "string \<Rightarrow> string \<Rightarrow> int" where
  "sample_localeCompare a b =
     (if collation_key a < collation_key b then - 1
      else if collation_key b < collation_key a then 1 else 0)"

definition sample_buildTypeName :: "Service \<Rightarrow> ReturnType \<Rightarrow> bool \<Rightarrow> string" where
  "sample_buildTypeName svc ty skipArrayify =
     (let n = (if isPrimitive ty then sample_pascal (typeName ty)
               else ''Api::V1::Types::'' @ sample_pascal (typeName ty))
      in if isArray ty \<and> \<not> skipArrayify then ''T::Array['' @ n @ '']'' else n)"

definition sample_env :: Env where
  "sample_env =
     \<lparr>localeCompare = sample_localeCompare,
      pascal = sample_pascal,
      snake = sample_snake,
      title = sample_title,
      buildInterfaceName = (\<lambda>intf. sample_pascal (i_name intf @ ''_service'')),
      buildInterfaceNamespace = (\<lambda>svc. ''Api::V1''),
      buildMethodName = (\<lambda>method. sample_snake (m_name method)),
      buildParameterName = (\<lambda>param. sample_snake (p_name param)),
      buildPropertyName = (\<lambda>prop. sample_snake (p_name prop)),
      sorbet_buildTypeName = sample_buildTypeName,
      buildTypeNamespace = (\<lambda>svc. ''Api::V1::Types''),
      warning = (\<lambda>svc. [''This code was generated by a tool.''])\<rparr>"

text \<open>
  The host locale decides the collation. In a locale whose alphabet has \<open>z\<close> between \<open>s\<close>
  and \<open>t\<close>, as the Estonian one, \<^verbatim>\<open>'zulu'.localeCompare('tango')\<close> is negative. The weight
  of a letter is twice its code, and that of \<open>z\<close> the odd number after the weight of \<open>s\<close>.
\<close>

definition et_weight :: "char \<Rightarrow> nat" where
  "et_weight c = (if c = CHR ''z'' then 2 * of_char (CHR ''s'') + 1 else 2 * of_char c)"

definition et_collation_key :: "string \<Rightarrow> nat list \<times> bool list" where
  "et_collation_key s =
     (map (\<lambda>c. et_weight (toLowerChar c)) (filter (\<lambda>c. \<not> ignorable c) s),
      map isUpper (filter (\<lambda>c. \<not> ignorable c) s))"

definition et_localeCompare :: "string \<Rightarrow> string \<Rightarrow> int" where
  "et_localeCompare a b =
     (if et_collation_key a < et_collation_key b then - 1
      else if et_collation_key b < et_collation_key a then 1 else 0)"

text \<open>
  A name factory that looks a named type up and answers \<open>T.untyped\<close> for a name that is
  neither a type nor an enum of the model; the environment \<open>lookup_env\<close> differs from
  \<open>sample_env\<close> in this collaborator only.
\<close>

definition lookup_buildTypeName :: "Service \<Rightarrow> ReturnType \<Rightarrow> bool \<Rightarrow> string" where
  "lookup_buildTypeName svc ty skipArrayify =
     (let n = (if isPrimitive ty then sample_pascal (typeName ty)
               else (case getTypeByName svc (typeName ty) of
                       Some t \<Rightarrow> ''Api::V1::Types::'' @ sample_pascal (typeName ty)
                     | None \<Rightarrow>
                         (case getEnumByName svc (typeName ty) of
                            Some e \<Rightarrow> ''Api::V1::Types::'' @ sample_pascal (typeName ty)
                          | None \<Rightarrow> ''T.untyped'')))
      in if isArray ty \<and> \<not> skipArrayify then ''T::Array['' @ n @ '']'' else n)"

definition lookup_env :: Env where
  "lookup_env = sample_env\<lparr>sorbet_buildTypeName := lookup_buildTypeName\<rparr>"

text \<open>Shorthands for writing down models.\<close>

definition prim :: "string \<Rightarrow> string \<Rightarrow> bool \<Rightarrow> Parameter" where
  "prim n ty req =
     \<lparr>typeName = ty, isPrimitive = True, isArray = False,
      p_name = n, p_description = NoDescription, required = req\<rparr>"

definition named :: "string \<Rightarrow> string \<Rightarrow> bool \<Rightarrow> Parameter" where
  "named n ty req =
     \<lparr>typeName = ty, isPrimitive = False, isArray = False,
      p_name = n, p_description = NoDescription, required = req\<rparr>"

section \<open>Vocabulary of the statements\<close>

text \<open>
  The type a reference resolves to, if the traversal follows it: the reference is not
  primitive and its name is in the registry.
\<close>

definition resolve :: "Service \<Rightarrow> 'a ReturnType_scheme \<Rightarrow> Type option" where
  "resolve svc r = (if \<not> isPrimitive r then getTypeByName svc (typeName r) else None)"

text \<open>The types \<open>traverseType\<close> descends into from a type, in the order of its properties.\<close>

definition refs :: "Service \<Rightarrow> Type \<Rightarrow> Type list" where
  "refs svc t = List.map_filter (resolve svc) (properties t)"

text \<open>The types \<open>types\<close> starts a traversal from: those of the parameters of a method, then
  that of its return type.\<close>

definition method_roots :: "Service \<Rightarrow> Method \<Rightarrow> Type list" where
  "method_roots svc method =
     List.map_filter (resolve svc) (parameters method)
       @ List.map_filter (resolve svc) (case returnType method of None \<Rightarrow> [] | Some rt \<Rightarrow> [rt])"

definition roots :: "Service \<Rightarrow> Interface \<Rightarrow> Type list" where
  "roots svc intf = concat (map (method_roots svc) (int_methods intf))"

text \<open>The types an interface reaches: its roots and everything their properties refer to.\<close>

inductive reachable :: "Service \<Rightarrow> Interface \<Rightarrow> Type \<Rightarrow> bool" for svc intf where
  root: "t \<in> set (roots svc intf) \<Longrightarrow> reachable svc intf t"
| step: "reachable svc intf t \<Longrightarrow> s \<in> set (refs svc t) \<Longrightarrow> reachable svc intf s"

inductive_set descendants :: "Service \<Rightarrow> Type \<Rightarrow> Type set" for svc t where
  self: "t \<in> descendants svc t"
| child: "s \<in> descendants svc t \<Longrightarrow> u \<in> set (refs svc s) \<Longrightarrow> u \<in> descendants svc t"

text \<open>An object that a lookup of its own name returns: the registry's entry of that name.\<close>

definition resolved :: "Service \<Rightarrow> Type \<Rightarrow> bool" where
  "resolved svc t = (getTypeByName svc (t_name t) = Some t)"

definition eresolved :: "Service \<Rightarrow> Enum \<Rightarrow> bool" where
  "eresolved svc e = (getEnumByName svc (e_name e) = Some e)"

definition enum_inv :: "Service \<Rightarrow> Enum list \<Rightarrow> bool" where
  "enum_inv svc found = (distinct found \<and> list_all (eresolved svc) found)"

text \<open>The loops of \<open>types\<close> seen as one loop over the roots.\<close>

fun add_roots :: "nat \<Rightarrow> Service \<Rightarrow> Type list \<Rightarrow> Type list \<Rightarrow> Type list option" where
  "add_roots n svc [] found = Some found"
| "add_roots n svc (t # ts) found =
     (case traverseType n svc t of
        None \<Rightarrow> None
      | Some ys \<Rightarrow> add_roots n svc ts (fold set_add ys found))"

text \<open>
  A type lies on a cycle when one of the types it refers to leads back to it; an interface
  is cyclic when it reaches such a type.
\<close>

definition on_cycle :: "Service \<Rightarrow> Type \<Rightarrow> bool" where
  "on_cycle svc t = (\<exists>s\<in>set (refs svc t). t \<in> descendants svc s)"

definition cyclic :: "Service \<Rightarrow> Interface \<Rightarrow> bool" where
  "cyclic svc intf = (\<exists>t. reachable svc intf t \<and> on_cycle svc t)"

text \<open>The names the generator sorts for an interface: those of its methods and those in the
  registries of types and enums.\<close>

definition sorted_names :: "Service \<Rightarrow> Interface \<Rightarrow> string set" where
  "sorted_names svc intf =
     set (map m_name (int_methods intf)) \<union> set (map t_name (svc_types svc))
       \<union> set (map e_name (svc_enums svc))"

text \<open>The file stem of an interface, the last segment of its path without the extension.\<close>

definition file_stem :: "Env \<Rightarrow> Interface \<Rightarrow> string" where
  "file_stem env intf = snake env (buildInterfaceName env intf)"

text \<open>The lines \<open>buildInterfaceDocs\<close> yields once the sorted types and enums are known:
  the banner, then the heading, the table of contents and the sections.\<close>

definition document_body ::
  "Env \<Rightarrow> Service \<Rightarrow> Interface \<Rightarrow> Type list \<Rightarrow> Enum list \<Rightarrow> string list" where
  "document_body env svc intf ts es =
     ['''', ''# '' @ title env (buildInterfaceName env intf), '''']
       @ toc_lines env (methods env intf) ts es @ ['''']
       @ section_lines env svc (methods env intf) ts es"

definition document :: "Env \<Rightarrow> Service \<Rightarrow> Interface \<Rightarrow> Type list \<Rightarrow> Enum list \<Rightarrow> string list" where
  "document env svc intf ts es = warning_lines env svc @ document_body env svc intf ts es"

section \<open>Example models\<close>

text \<open>
  A service whose interface reaches the type \<open>widget\<close> and through it the type \<open>maker\<close>;
  a service with a type that refers to itself; one with two types that refer to each other;
  one with a parameter whose type is in no registry; and smaller pieces for the rendering
  examples.
\<close>

definition widget_type :: Type where
  "widget_type =
     \<lparr>t_name = ''widget'', t_description = NoDescription,
      properties = [prim ''name'' ''string'' True, named ''maker'' ''maker'' False]\<rparr>"

definition maker_type :: Type where
  "maker_type =
     \<lparr>t_name = ''maker'', t_description = NoDescription,
      properties = [prim ''name'' ''string'' True]\<rparr>"

definition get_widget :: Method where
  "get_widget =
     \<lparr>m_name = ''getWidget'', parameters = [prim ''id'' ''string'' True],
      returnType = Some \<lparr>typeName = ''widget'', isPrimitive = False, isArray = False\<rparr>,
      m_description = NoDescription\<rparr>"

definition list_widgets :: Method where
  "list_widgets =
     \<lparr>m_name = ''listWidgets'', parameters = [],
      returnType = Some \<lparr>typeName = ''widget'', isPrimitive = False, isArray = True\<rparr>,
      m_description = NoDescription\<rparr>"

definition widgets_intf :: Interface where
  "widgets_intf = \<lparr>i_name = ''widgets'', int_methods = [list_widgets, get_widget]\<rparr>"

definition widgets_svc :: Service where
  "widgets_svc =
     \<lparr>interfaces = [widgets_intf], svc_types = [widget_type, maker_type], svc_enums = []\<rparr>"

definition node_type :: Type where
  "node_type =
     \<lparr>t_name = ''node'', t_description = NoDescription,
      properties = [named ''next'' ''node'' False]\<rparr>"

definition get_node :: Method where
  "get_node =
     \<lparr>m_name = ''getNode'', parameters = [],
      returnType = Some \<lparr>typeName = ''node'', isPrimitive = False, isArray = False\<rparr>,
      m_description = NoDescription\<rparr>"

definition nodes_intf :: Interface where
  "nodes_intf = \<lparr>i_name = ''nodes'', int_methods = [get_node]\<rparr>"

definition nodes_svc :: Service where
  "nodes_svc = \<lparr>interfaces = [nodes_intf], svc_types = [node_type], svc_enums = []\<rparr>"

definition ping_type :: Type where
  "ping_type =
     \<lparr>t_name = ''ping'', t_description = NoDescription,
      properties = [named ''reply'' ''pong'' True]\<rparr>"

definition pong_type :: Type where
  "pong_type =
     \<lparr>t_name = ''pong'', t_description = NoDescription,
      properties = [named ''request'' ''ping'' True]\<rparr>"

definition send_ping :: Method where
  "send_ping =
     \<lparr>m_name = ''sendPing'', parameters = [named ''ping'' ''ping'' True],
      returnType = None, m_description = NoDescription\<rparr>"

definition echo_intf :: Interface where
  "echo_intf = \<lparr>i_name = ''echo'', int_methods = [send_ping]\<rparr>"

definition echo_svc :: Service where
  "echo_svc = \<lparr>interfaces = [echo_intf], svc_types = [ping_type, pong_type], svc_enums = []\<rparr>"

definition adopt :: Method where
  "adopt =
     \<lparr>m_name = ''adopt'', parameters = [named ''owner'' ''ghost'' True, named ''pet'' ''widget'' True],
      returnType = None, m_description = NoDescription\<rparr>"

definition adopt_intf :: Interface where
  "adopt_intf = \<lparr>i_name = ''adoptions'', int_methods = [adopt]\<rparr>"

definition adopt_svc :: Service where
  "adopt_svc = \<lparr>interfaces = [adopt_intf], svc_types = [widget_type, maker_type], svc_enums = []\<rparr>"

definition zeta :: Method where
  "zeta = \<lparr>m_name = ''Zeta'', parameters = [], returnType = None, m_description = NoDescription\<rparr>"

definition alpha :: Method where
  "alpha = \<lparr>m_name = ''alpha'', parameters = [], returnType = None, m_description = NoDescription\<rparr>"

definition letters_intf :: Interface where
  "letters_intf = \<lparr>i_name = ''letters'', int_methods = [zeta, alpha]\<rparr>"

definition letters_svc :: Service where
  "letters_svc = \<lparr>interfaces = [letters_intf], svc_types = [], svc_enums = []\<rparr>"

definition widget_item :: Type where
  "widget_item =
     \<lparr>t_name = ''widget_item'', t_description = NoDescription,
      properties = [prim ''name'' ''string'' True]\<rparr>"

definition get_item :: Method where
  "get_item =
     \<lparr>m_name = ''getItem'', parameters = [],
      returnType = Some \<lparr>typeName = ''widget_item'', isPrimitive = False, isArray = False\<rparr>,
      m_description = NoDescription\<rparr>"

definition items_intf :: Interface where
  "items_intf = \<lparr>i_name = ''items'', int_methods = [get_item]\<rparr>"

definition items_svc :: Service where
  "items_svc = \<lparr>interfaces = [items_intf], svc_types = [widget_item], svc_enums = []\<rparr>"

definition search :: Method where
  "search =
     \<lparr>m_name = ''search'',
      parameters = [prim ''optionalA'' ''string'' False, prim ''requiredB'' ''string'' True,
                    prim ''optionalC'' ''string'' False, prim ''requiredD'' ''string'' True],
      returnType = None, m_description = NoDescription\<rparr>"

definition status_enum :: Enum where
  "status_enum = \<lparr>e_name = ''status'', e_values = [''pending'', ''active'', ''closed'']\<rparr>"

definition pair_type :: Type where
  "pair_type =
     \<lparr>t_name = ''pair'', t_description = NoDescription,
      properties = [named ''left'' ''maker'' True, named ''right'' ''maker'' True]\<rparr>"

definition get_pair :: Method where
  "get_pair =
     \<lparr>m_name = ''getPair'', parameters = [],
      returnType = Some \<lparr>typeName = ''pair'', isPrimitive = False, isArray = False\<rparr>,
      m_description = NoDescription\<rparr>"

definition pairs_intf :: Interface where
  "pairs_intf = \<lparr>i_name = ''pairs'', int_methods = [get_pair]\<rparr>"

definition pairs_svc :: Service where
  "pairs_svc = \<lparr>interfaces = [pairs_intf], svc_types = [pair_type, maker_type], svc_enums = []\<rparr>"

text \<open>
  Two interfaces over the same types; two interfaces whose names give the same file stem;
  an interface whose methods take enums; methods whose names differ in an ignored
  character only; and methods whose order depends on the place of \<open>z\<close> in the alphabet.
\<close>

definition shop_svc :: Service where
  "shop_svc =
     \<lparr>interfaces = [widgets_intf, adopt_intf], svc_types = [widget_type, maker_type],
      svc_enums = []\<rparr>"

definition foo_bar_intf :: Interface where
  "foo_bar_intf = \<lparr>i_name = ''fooBar'', int_methods = []\<rparr>"

definition foo_bar_snake_intf :: Interface where
  "foo_bar_snake_intf = \<lparr>i_name = ''foo_bar'', int_methods = []\<rparr>"

definition twins_svc :: Service where
  "twins_svc =
     \<lparr>interfaces = [foo_bar_intf, foo_bar_snake_intf], svc_types = [], svc_enums = []\<rparr>"

definition priority_enum :: Enum where
  "priority_enum = \<lparr>e_name = ''priority'', e_values = [''low'', ''high'']\<rparr>"

definition list_orders :: Method where
  "list_orders =
     \<lparr>m_name = ''listOrders'',
      parameters = [named ''status'' ''status'' False, named ''priority'' ''priority'' False],
      returnType = Some \<lparr>typeName = ''widget'', isPrimitive = False, isArray = False\<rparr>,
      m_description = NoDescription\<rparr>"

definition get_order :: Method where
  "get_order =
     \<lparr>m_name = ''getOrder'', parameters = [prim ''id'' ''string'' True],
      returnType = Some \<lparr>typeName = ''maker'', isPrimitive = False, isArray = False\<rparr>,
      m_description = NoDescription\<rparr>"

definition orders_intf :: Interface where
  "orders_intf = \<lparr>i_name = ''orders'', int_methods = [list_orders, get_order]\<rparr>"

definition orders_svc :: Service where
  "orders_svc =
     \<lparr>interfaces = [orders_intf], svc_types = [widget_type, maker_type],
      svc_enums = [status_enum, priority_enum]\<rparr>"

definition ab_marked :: Method where
  "ab_marked =
     \<lparr>m_name = ''a'' @ [CHR 0x01] @ ''b'', parameters = [], returnType = None,
      m_description = NoDescription\<rparr>"

definition ab_plain :: Method where
  "ab_plain =
     \<lparr>m_name = ''ab'', parameters = [], returnType = None, m_description = NoDescription\<rparr>"

definition ties_intf :: Interface where
  "ties_intf = \<lparr>i_name = ''ties'', int_methods = [ab_marked, ab_plain]\<rparr>"

definition tango :: Method where
  "tango = \<lparr>m_name = ''tango'', parameters = [], returnType = None, m_description = NoDescription\<rparr>"

definition zulu :: Method where
  "zulu = \<lparr>m_name = ''zulu'', parameters = [], returnType = None, m_description = NoDescription\<rparr>"

definition radio_intf :: Interface where
  "radio_intf = \<lparr>i_name = ''radio'', int_methods = [tango, zulu]\<rparr>"

definition radio_svc :: Service where
  "radio_svc = \<lparr>interfaces = [radio_intf], svc_types = [], svc_enums = []\<rparr>"

section \<open>Sorting with a comparison function\<close>

lemma set_insort_cmp: "set (insort_cmp c x xs) = insert x (set xs)"
  by (induction xs) auto

lemma set_sort_cmp: "set (sort_cmp c xs) = set xs"
  by (induction xs) (simp_all add: sort_cmp_def set_insort_cmp)

lemma length_insort_cmp: "length (insort_cmp c x xs) = Suc (length xs)"
  by (induction xs) auto

lemma length_sort_cmp: "length (sort_cmp c xs) = length xs"
  by (induction xs) (simp_all add: sort_cmp_def length_insort_cmp)

lemma distinct_insort_cmp: "distinct (insort_cmp c x xs) = (x \<notin> set xs \<and> distinct xs)"
  by (induction xs) (auto simp: set_insort_cmp)

lemma distinct_sort_cmp: "distinct (sort_cmp c xs) = distinct xs"
  by (induction xs) (simp_all add: sort_cmp_def distinct_insort_cmp set_sort_cmp[unfolded sort_cmp_def])

lemma sort_cmp_Nil_iff: "sort_cmp c xs = [] \<longleftrightarrow> xs = []"
  using length_sort_cmp[of c xs] by (metis length_0_conv)

lemma sorted_insort_cmp:
  assumes total: "\<And>a b. c a b \<le> 0 \<or> c b a \<le> 0"
    and trans: "\<And>a b d. c a b \<le> 0 \<Longrightarrow> c b d \<le> 0 \<Longrightarrow> c a d \<le> 0"
    and "sorted_wrt (\<lambda>a b. c a b \<le> 0) xs"
  shows "sorted_wrt (\<lambda>a b. c a b \<le> 0) (insort_cmp c x xs)"
  using assms(3)
proof (induction xs)
  case Nil
  then show ?case by simp
next
  case (Cons y ys)
  show ?case
  proof (cases "c x y \<le> 0")
    case True
    then have "\<forall>z\<in>set ys. c x z \<le> 0"
      using Cons.prems trans by auto
    with True Cons.prems show ?thesis by simp
  next
    case False
    then have "c y x \<le> 0" using total[of x y] by simp
    with False Cons show ?thesis by (auto simp: set_insort_cmp)
  qed
qed

lemma sorted_sort_cmp:
  assumes "\<And>a b. c a b \<le> 0 \<or> c b a \<le> 0"
    and "\<And>a b d. c a b \<le> 0 \<Longrightarrow> c b d \<le> 0 \<Longrightarrow> c a d \<le> 0"
  shows "sorted_wrt (\<lambda>a b. c a b \<le> 0) (sort_cmp c xs)"
proof (induction xs)
  case Nil
  show ?case by (simp add: sort_cmp_def)
next
  case (Cons x xs)
  then show ?case
    using sorted_insort_cmp[of c "sort_cmp c xs" x, OF assms]
    by (simp add: sort_cmp_def)
qed

lemma sorted_wrt_strict:
  assumes "sorted_wrt (\<lambda>a b. c a b \<le> (0::int)) xs" and "distinct (map f xs)"
    and "\<And>a b. a \<in> set xs \<Longrightarrow> b \<in> set xs \<Longrightarrow> c a b = 0 \<Longrightarrow> f a = f b"
  shows "sorted_wrt (\<lambda>a b. c a b < 0) xs"
  using assms
proof (induction xs)
  case Nil
  then show ?case by simp
next
  case (Cons x xs)
  have "\<forall>y\<in>set xs. c x y < 0"
  proof
    fix y assume y: "y \<in> set xs"
    then have le: "c x y \<le> 0" using Cons.prems(1) by simp
    have "f x \<noteq> f y" using Cons.prems(2) y by auto
    then have "c x y \<noteq> 0" using Cons.prems(3)[of x y] y by auto
    with le show "c x y < 0" by simp
  qed
  moreover have "sorted_wrt (\<lambda>a b. c a b < 0) xs"
    using Cons by auto
  ultimately show ?case by simp
qed

subsection \<open>Required parameters first\<close>

lemma insort_cmp_skip:
  assumes "\<forall>y\<in>set xs. \<not> c x y \<le> 0"
  shows "insort_cmp c x (xs @ ys) = xs @ insort_cmp c x ys"
  using assms by (induction xs) auto

lemma insort_cmp_front:
  assumes "\<forall>y\<in>set ys. c x y \<le> 0"
  shows "insort_cmp c x ys = x # ys"
  using assms by (cases ys) auto

lemma insort_cmp_hd:
  assumes "ys = [] \<or> c x (hd ys) \<le> 0"
  shows "insort_cmp c x ys = x # ys"
  using assms by (cases ys) auto

lemma sortParameters_partition:
  "sortParameters ps = filter isRequired ps @ filter (\<lambda>p. \<not> isRequired p) ps"
proof (induction ps)
  case Nil
  show ?case by (simp add: sortParameters_def sort_cmp_def)
next
  case (Cons p ps)
  let ?c = "\<lambda>a b. (if isRequired a then 0 else 1) - (if isRequired b then 0 else (1::int))"
  have step: "sortParameters (p # ps) = insort_cmp ?c p (sortParameters ps)"
    by (simp add: sortParameters_def sort_cmp_def)
  show ?case
  proof (cases "isRequired p")
    case True
    then have "insort_cmp ?c p (sortParameters ps) = p # sortParameters ps"
      by (intro insort_cmp_front) auto
    with True step Cons show ?thesis by simp
  next
    case False
    have "insort_cmp ?c p (filter isRequired ps @ filter (\<lambda>p. \<not> isRequired p) ps)
        = filter isRequired ps @ insort_cmp ?c p (filter (\<lambda>p. \<not> isRequired p) ps)"
      using False by (intro insort_cmp_skip) auto
    also have "insort_cmp ?c p (filter (\<lambda>p. \<not> isRequired p) ps) = p # filter (\<lambda>p. \<not> isRequired p) ps"
      using False by (intro insort_cmp_front) auto
    finally show ?thesis using False step Cons by simp
  qed
qed

section \<open>The traversal\<close>

lemma traverseType_refs:
  "traverseType (Suc n) svc t =
     (case yieldAll (traverseType n svc) (refs svc t) of None \<Rightarrow> None | Some ys \<Rightarrow> Some (t # ys))"
proof -
  have "yieldAll (\<lambda>prop. if \<not> isPrimitive prop
           then (case getTypeByName svc (typeName prop) of
                   None \<Rightarrow> Some [] | Some subtype \<Rightarrow> traverseType n svc subtype)
           else Some []) ps
      = yieldAll (traverseType n svc)
          (List.map_filter (resolve svc) ps)"
    for ps :: "Property list"
    by (induction ps) (auto simp: resolve_def split: option.splits)
  then show ?thesis by (simp add: refs_def)
qed

declare traverseType.simps(2) [simp del]

lemma in_set_map_filter:
  "y \<in> set (List.map_filter f xs) \<longleftrightarrow> (\<exists>x\<in>set xs. f x = Some y)"
  by (induction xs) (auto split: option.splits)

lemma yieldAll_total:
  assumes "\<And>x. x \<in> set xs \<Longrightarrow> \<exists>ys. f x = Some ys"
  shows "\<exists>zs. yieldAll f xs = Some zs"
  using assms
proof (induction xs)
  case Nil
  show ?case by simp
next
  case (Cons x xs)
  then obtain ys zs where "f x = Some ys" "yieldAll f xs = Some zs"
    by (meson list.set_intros)
  then show ?case by simp
qed

lemma yieldAll_mono:
  assumes "yieldAll f xs = Some zs"
    and "\<And>x ys. x \<in> set xs \<Longrightarrow> f x = Some ys \<Longrightarrow> g x = Some ys"
  shows "yieldAll g xs = Some zs"
  using assms
proof (induction xs arbitrary: zs)
  case Nil
  then show ?case by simp
next
  case (Cons x xs)
  from Cons.prems(1) obtain ys ws where fx: "f x = Some ys" and rest: "yieldAll f xs = Some ws"
    and zs: "zs = ys @ ws"
    by (auto split: option.splits)
  have "g x = Some ys" using Cons.prems(2) fx by simp
  moreover have "yieldAll g xs = Some ws"
    using Cons.IH[OF rest] Cons.prems(2) by simp
  ultimately show ?case using zs by simp
qed

lemma yieldAll_set:
  assumes "yieldAll f xs = Some zs"
  shows "set zs = (\<Union>x\<in>set xs. set (the (f x)))"
  using assms
  by (induction xs arbitrary: zs) (auto split: option.splits)

lemma yieldAll_None:
  assumes "x \<in> set xs" "f x = None"
  shows "yieldAll f xs = None"
  using assms by (induction xs) (auto split: option.splits)

lemma traverseType_mono:
  assumes "traverseType n svc t = Some ys" "n \<le> m"
  shows "traverseType m svc t = Some ys"
  using assms
proof (induction n arbitrary: m t ys)
  case 0
  then show ?case by simp
next
  case (Suc n)
  from Suc.prems(2) obtain k where m: "m = Suc k" and nk: "n \<le> k"
    by (cases m) auto
  from Suc.prems(1) obtain zs where z: "yieldAll (traverseType n svc) (refs svc t) = Some zs"
    and ys: "ys = t # zs"
    by (auto simp: traverseType_refs split: option.splits)
  have "yieldAll (traverseType k svc) (refs svc t) = Some zs"
    using z by (rule yieldAll_mono) (use Suc.IH nk in blast)
  then show ?case using m ys by (simp add: traverseType_refs)
qed

lemma getTypeByName_Some:
  assumes "getTypeByName svc n = Some t"
  shows "t \<in> set (svc_types svc) \<and> t_name t = n \<and> getTypeByName svc (t_name t) = Some t"
  using assms unfolding getTypeByName_def
  by (auto simp: find_Some_iff intro: nth_mem)

lemma getTypeByName_None:
  "getTypeByName svc n = None \<longleftrightarrow> (\<forall>t\<in>set (svc_types svc). t_name t \<noteq> n)"
  unfolding getTypeByName_def by (auto simp: find_None_iff)

lemma resolve_resolved: "resolve svc r = Some t \<Longrightarrow> resolved svc t"
  by (auto simp: resolve_def resolved_def dest: getTypeByName_Some split: if_splits)

lemma refs_resolved: "s \<in> set (refs svc t) \<Longrightarrow> resolved svc s"
  by (auto simp: refs_def in_set_map_filter dest: resolve_resolved)

lemma in_returned_iff:
  "t \<in> set (List.map_filter (resolve svc) (case r of None \<Rightarrow> [] | Some rt \<Rightarrow> [rt]))
     \<longleftrightarrow> (\<exists>rt. r = Some rt \<and> resolve svc rt = Some t)"
  by (cases r) (auto split: option.splits)

lemma in_roots_iff:
  "t \<in> set (roots svc intf) \<longleftrightarrow>
     (\<exists>m\<in>set (int_methods intf).
        (\<exists>p\<in>set (parameters m). resolve svc p = Some t)
        \<or> (\<exists>rt. returnType m = Some rt \<and> resolve svc rt = Some t))"
  unfolding roots_def method_roots_def by (simp add: in_set_map_filter in_returned_iff) metis

lemma roots_resolved: "s \<in> set (roots svc intf) \<Longrightarrow> resolved svc s"
  by (auto simp: in_roots_iff dest: resolve_resolved)

lemma resolved_in_registry: "resolved svc t \<Longrightarrow> t \<in> set (svc_types svc)"
  by (auto simp: resolved_def dest: getTypeByName_Some)

lemma resolved_name_inj: "resolved svc s \<Longrightarrow> resolved svc t \<Longrightarrow> t_name s = t_name t \<Longrightarrow> s = t"
  by (simp add: resolved_def)

lemma traverseType_terminates:
  assumes rank: "\<And>t s. reachable svc intf t \<Longrightarrow> s \<in> set (refs svc t) \<Longrightarrow> rank s < (rank t :: nat)"
    and "reachable svc intf t" "rank t < n"
  shows "\<exists>ys. traverseType n svc t = Some ys"
  using assms(2,3)
proof (induction n arbitrary: t)
  case 0
  then show ?case by simp
next
  case (Suc n)
  have "\<exists>zs. yieldAll (traverseType n svc) (refs svc t) = Some zs"
  proof (rule yieldAll_total)
    fix s assume s: "s \<in> set (refs svc t)"
    then have "rank s < n" using rank[OF Suc.prems(1) s] Suc.prems(2) by simp
    moreover have "reachable svc intf s"
      using Suc.prems(1) s by (rule reachable.step)
    ultimately show "\<exists>ys. traverseType n svc s = Some ys" by (rule Suc.IH[rotated])
  qed
  then show ?case by (auto simp: traverseType_refs)
qed

lemma descendants_unfold:
  "descendants svc t = insert t (\<Union>s\<in>set (refs svc t). descendants svc s)"
proof (intro set_eqI iffI)
  fix u assume "u \<in> descendants svc t"
  then show "u \<in> insert t (\<Union>s\<in>set (refs svc t). descendants svc s)"
  proof (induction rule: descendants.induct)
    case self
    then show ?case by simp
  next
    case (child s u)
    then show ?case
      by (auto intro: descendants.intros)
  qed
next
  fix u assume "u \<in> insert t (\<Union>s\<in>set (refs svc t). descendants svc s)"
  then consider "u = t" | s where "s \<in> set (refs svc t)" "u \<in> descendants svc s" by auto
  then show "u \<in> descendants svc t"
  proof cases
    case 1
    then show ?thesis by (simp add: descendants.self)
  next
    case 2
    from 2(2) 2(1) show ?thesis
      by (induction rule: descendants.induct) (auto intro: descendants.intros)
  qed
qed

lemma traverseType_set:
  assumes "traverseType n svc t = Some ys"
  shows "set ys = descendants svc t"
  using assms
proof (induction n arbitrary: t ys)
  case 0
  then show ?case by simp
next
  case (Suc n)
  from Suc.prems obtain zs where z: "yieldAll (traverseType n svc) (refs svc t) = Some zs"
    and ys: "ys = t # zs"
    by (auto simp: traverseType_refs split: option.splits)
  have each: "\<exists>ws. traverseType n svc s = Some ws" if "s \<in> set (refs svc t)" for s
  proof (cases "traverseType n svc s")
    case None
    then show ?thesis
      using yieldAll_None[of s "refs svc t" "traverseType n svc"] that z by simp
  qed simp
  have "set zs = (\<Union>s\<in>set (refs svc t). set (the (traverseType n svc s)))"
    using z by (rule yieldAll_set)
  also have "\<dots> = (\<Union>s\<in>set (refs svc t). descendants svc s)"
    using each Suc.IH by fastforce
  finally show ?case using ys descendants_unfold[of svc t] by simp
qed

section \<open>The reachable types\<close>

lemma set_fold_set_add: "set (fold set_add ys found) = set found \<union> set ys"
  by (induction ys arbitrary: found) (auto simp: set_add_def)

lemma distinct_fold_set_add: "distinct found \<Longrightarrow> distinct (fold set_add ys found)"
  by (induction ys arbitrary: found) (auto simp: set_add_def)

lemma types_params_Cons:
  "types_params n svc (p # ps) found =
     (case resolve svc p of
        None \<Rightarrow> types_params n svc ps found
      | Some pt \<Rightarrow>
          (case traverseType n svc pt of
             None \<Rightarrow> None
           | Some ys \<Rightarrow> types_params n svc ps (fold set_add ys found)))"
  by (simp add: resolve_def)

lemma types_return_resolve:
  "types_return n svc m found =
     (case List.map_filter (resolve svc) (case returnType m of None \<Rightarrow> [] | Some rt \<Rightarrow> [rt]) of
        [] \<Rightarrow> Some found
      | t # _ \<Rightarrow>
          (case traverseType n svc t of
             None \<Rightarrow> None
           | Some ys \<Rightarrow> Some (fold set_add ys found)))"
  by (simp add: types_return_def resolve_def split: option.splits)

declare types_params.simps(2) [simp del]

lemma add_roots_append:
  "add_roots n svc (xs @ ys) found =
     (case add_roots n svc xs found of None \<Rightarrow> None | Some f \<Rightarrow> add_roots n svc ys f)"
  by (induction xs arbitrary: found) (auto split: option.splits)

lemma types_params_add_roots:
  "types_params n svc ps found = add_roots n svc (List.map_filter (resolve svc) ps) found"
  by (induction ps arbitrary: found) (auto simp: types_params_Cons split: option.splits)

lemma types_return_add_roots:
  "types_return n svc m found =
     add_roots n svc (List.map_filter (resolve svc) (case returnType m of None \<Rightarrow> [] | Some rt \<Rightarrow> [rt])) found"
  by (cases "returnType m") (auto simp: types_return_resolve split: option.splits list.splits)

lemma types_methods_add_roots:
  "types_methods n svc ms found = add_roots n svc (concat (map (method_roots svc) ms)) found"
  by (induction ms arbitrary: found)
     (auto simp: add_roots_append method_roots_def types_params_add_roots types_return_add_roots
           split: option.splits)

lemma add_roots_mono:
  assumes "add_roots n svc ts found = Some r" "n \<le> m"
  shows "add_roots m svc ts found = Some r"
  using assms
  by (induction ts arbitrary: found) (auto split: option.splits dest: traverseType_mono)

lemma add_roots_total:
  assumes "\<And>t. t \<in> set ts \<Longrightarrow> \<exists>ys. traverseType n svc t = Some ys"
  shows "\<exists>r. add_roots n svc ts found = Some r"
  using assms
proof (induction ts arbitrary: found)
  case Nil
  show ?case by simp
next
  case (Cons t ts)
  then obtain ys where "traverseType n svc t = Some ys" by (meson list.set_intros)
  then show ?case using Cons by simp
qed

lemma add_roots_set:
  assumes "add_roots n svc ts found = Some r"
  shows "set r = set found \<union> (\<Union>t\<in>set ts. descendants svc t)"
  using assms
proof (induction ts arbitrary: found)
  case Nil
  then show ?case by simp
next
  case (Cons t ts)
  then obtain ys where ys: "traverseType n svc t = Some ys"
    and rest: "add_roots n svc ts (fold set_add ys found) = Some r"
    by (auto split: option.splits)
  show ?case
    using Cons.IH[OF rest] traverseType_set[OF ys] by (auto simp: set_fold_set_add)
qed

lemma add_roots_distinct:
  assumes "add_roots n svc ts found = Some r" "distinct found"
  shows "distinct r"
  using assms
  by (induction ts arbitrary: found) (auto split: option.splits intro: distinct_fold_set_add)

lemma reachable_iff: "reachable svc intf t \<longleftrightarrow> (\<exists>r\<in>set (roots svc intf). t \<in> descendants svc r)"
proof
  assume "reachable svc intf t"
  then show "\<exists>r\<in>set (roots svc intf). t \<in> descendants svc r"
    by (induction rule: reachable.induct) (auto intro: descendants.intros)
next
  assume "\<exists>r\<in>set (roots svc intf). t \<in> descendants svc r"
  then obtain r where r: "r \<in> set (roots svc intf)" and t: "t \<in> descendants svc r" by blast
  from t r show "reachable svc intf t"
    by (induction rule: descendants.induct) (auto intro: reachable.intros)
qed

lemma reachable_resolved: "reachable svc intf t \<Longrightarrow> resolved svc t"
  by (induction rule: reachable.induct) (auto dest: roots_resolved refs_resolved)

lemma types_Some_iff:
  "types n env svc intf = Some ts \<longleftrightarrow>
     (\<exists>found. add_roots n svc (roots svc intf) [] = Some found \<and>
        ts = sort_cmp (\<lambda>a b. localeCompare env (t_name a) (t_name b)) found)"
  by (auto simp: types_def types_methods_add_roots roots_def split: option.splits)

lemma types_set:
  assumes "types n env svc intf = Some ts"
  shows "set ts = {t. reachable svc intf t}"
  using assms add_roots_set[of n svc "roots svc intf" "[]"]
  by (auto simp: types_Some_iff set_sort_cmp reachable_iff)

lemma types_distinct:
  assumes "types n env svc intf = Some ts"
  shows "distinct ts"
  using assms add_roots_distinct[of n svc "roots svc intf" "[]"]
  by (auto simp: types_Some_iff distinct_sort_cmp)

lemma types_distinct_names:
  assumes "types n env svc intf = Some ts"
  shows "distinct (map t_name ts)"
proof -
  have "inj_on t_name (set ts)"
    using types_set[OF assms] by (auto intro!: inj_onI dest!: reachable_resolved intro: resolved_name_inj)
  then show ?thesis using types_distinct[OF assms] by (simp add: distinct_map)
qed

lemma types_mono:
  assumes "types n env svc intf = Some ts" "n \<le> m"
  shows "types m env svc intf = Some ts"
  using assms by (auto simp: types_Some_iff dest: add_roots_mono)

lemma descendants_trans:
  assumes "s \<in> descendants svc t"
  shows "descendants svc s \<subseteq> descendants svc t"
proof
  fix u assume "u \<in> descendants svc s"
  then show "u \<in> descendants svc t"
    by (induction rule: descendants.induct) (auto intro: assms descendants.child)
qed

lemma descendants_registry:
  assumes "resolved svc t"
  shows "descendants svc t \<subseteq> set (svc_types svc)"
proof
  fix u assume "u \<in> descendants svc t"
  then show "u \<in> set (svc_types svc)"
    by (induction rule: descendants.induct)
       (auto intro: resolved_in_registry assms refs_resolved)
qed

lemma card_descendants_le:
  assumes "resolved svc t"
  shows "card (descendants svc t) \<le> length (svc_types svc)"
proof -
  have "card (descendants svc t) \<le> card (set (svc_types svc))"
    using descendants_registry[OF assms] by (intro card_mono) simp_all
  also have "\<dots> \<le> length (svc_types svc)" by (rule card_length)
  finally show ?thesis .
qed

lemma card_descendants_less:
  assumes "resolved svc t" "\<not> on_cycle svc t" "s \<in> set (refs svc t)"
  shows "card (descendants svc s) < card (descendants svc t)"
proof (rule psubset_card_mono)
  show "finite (descendants svc t)"
    using descendants_registry[OF assms(1)] by (rule finite_subset) simp
  have "s \<in> descendants svc t"
    using assms(3) by (auto intro: descendants.intros)
  then have "descendants svc s \<subseteq> descendants svc t" by (rule descendants_trans)
  moreover have "t \<notin> descendants svc s"
    using assms(2,3) by (auto simp: on_cycle_def)
  moreover have "t \<in> descendants svc t" by (rule descendants.self)
  ultimately show "descendants svc s \<subset> descendants svc t" by blast
qed

lemma traverseType_cycle:
  assumes "on_cycle svc t" "t \<in> descendants svc u"
  shows "traverseType n svc u = None"
  using assms(2)
proof (induction n arbitrary: u)
  case 0
  show ?case by simp
next
  case (Suc n)
  have "\<exists>s\<in>set (refs svc u). t \<in> descendants svc s"
  proof (cases "t = u")
    case True
    then show ?thesis using assms(1) by (simp add: on_cycle_def)
  next
    case False
    then show ?thesis using Suc.prems descendants_unfold[of svc u] by auto
  qed
  then obtain s where s: "s \<in> set (refs svc u)" and t: "t \<in> descendants svc s" by blast
  have "traverseType n svc s = None" using t by (rule Suc.IH)
  then have "yieldAll (traverseType n svc) (refs svc u) = None"
    using s yieldAll_None[of s "refs svc u" "traverseType n svc"] by simp
  then show ?case by (simp add: traverseType_refs)
qed

lemma add_roots_None:
  assumes "r \<in> set ts" "traverseType n svc r = None"
  shows "add_roots n svc ts found = None"
  using assms by (induction ts arbitrary: found) (auto split: option.splits)

lemma types_cyclic:
  assumes "cyclic svc intf"
  shows "types n env svc intf = None"
proof -
  from assms obtain t where t: "reachable svc intf t" "on_cycle svc t"
    by (auto simp: cyclic_def)
  from t(1) obtain r where r: "r \<in> set (roots svc intf)" "t \<in> descendants svc r"
    by (auto simp: reachable_iff)
  have "traverseType n svc r = None" using t(2) r(2) by (rule traverseType_cycle)
  then have "add_roots n svc (roots svc intf) [] = None"
    using r(1) by (intro add_roots_None)
  then show ?thesis
    by (cases "types n env svc intf") (auto simp: types_Some_iff)
qed

lemma types_acyclic:
  assumes "\<not> cyclic svc intf"
  shows "\<exists>ts. types (Suc (length (svc_types svc))) env svc intf = Some ts"
proof -
  let ?rank = "\<lambda>t. card (descendants svc t)"
  have rank: "?rank s < ?rank t" if "reachable svc intf t" "s \<in> set (refs svc t)" for t s
  proof -
    have "resolved svc t" using that(1) by (rule reachable_resolved)
    moreover have "\<not> on_cycle svc t" using assms that(1) by (auto simp: cyclic_def)
    ultimately show ?thesis using that(2) by (rule card_descendants_less)
  qed
  have "\<exists>r. add_roots (Suc (length (svc_types svc))) svc (roots svc intf) [] = Some r"
  proof (rule add_roots_total)
    fix t assume "t \<in> set (roots svc intf)"
    then have r: "reachable svc intf t" by (rule reachable.root)
    then have "?rank t \<le> length (svc_types svc)"
      by (intro card_descendants_le reachable_resolved)
    then have "?rank t < Suc (length (svc_types svc))" by simp
    with rank r show "\<exists>ys. traverseType (Suc (length (svc_types svc))) svc t = Some ys"
      by (rule traverseType_terminates)
  qed
  then show ?thesis by (auto simp: types_Some_iff)
qed

lemma rank_not_cyclic:
  assumes "\<And>t s. reachable svc intf t \<Longrightarrow> s \<in> set (refs svc t) \<Longrightarrow> rank s < (rank t :: nat)"
  shows "\<not> cyclic svc intf"
proof
  assume "cyclic svc intf"
  then obtain t s where t: "reachable svc intf t" and s: "s \<in> set (refs svc t)"
    and d: "t \<in> descendants svc s"
    by (auto simp: cyclic_def on_cycle_def)
  have rs: "reachable svc intf s" using t s by (rule reachable.step)
  have "rank u \<le> rank s \<and> reachable svc intf u" if "u \<in> descendants svc s" for u
    using that
  proof (induction rule: descendants.induct)
    case self
    show ?case using rs by simp
  next
    case (child v u)
    then have "rank u < rank v" using assms by blast
    moreover have "reachable svc intf u" using child by (auto intro: reachable.step)
    ultimately show ?case using child by simp
  qed
  then have "rank t \<le> rank s" using d by blast
  moreover have "rank s < rank t" using assms t s by blast
  ultimately show False by simp
qed

section \<open>The reachable enums\<close>

lemma getEnumByName_Some:
  assumes "getEnumByName svc n = Some e"
  shows "eresolved svc e"
  using assms unfolding getEnumByName_def eresolved_def
  by (auto simp: find_Some_iff)

lemma enum_inv_set_add: "enum_inv svc found \<Longrightarrow> eresolved svc e \<Longrightarrow> enum_inv svc (set_add e found)"
  by (auto simp: enum_inv_def set_add_def)

lemma enum_inv_refs: "enum_inv svc found \<Longrightarrow> enum_inv svc (enums_refs svc rs found)"
  by (induction rs arbitrary: found)
     (auto split: option.splits intro: enum_inv_set_add getEnumByName_Some)

lemma enum_inv_methods: "enum_inv svc found \<Longrightarrow> enum_inv svc (enums_methods svc ms found)"
  by (induction ms arbitrary: found) (auto intro: enum_inv_refs)

lemma enum_inv_types: "enum_inv svc found \<Longrightarrow> enum_inv svc (enums_types svc ts found)"
  by (induction ts arbitrary: found) (auto intro: enum_inv_refs)

lemma eresolved_name_inj: "eresolved svc a \<Longrightarrow> eresolved svc b \<Longrightarrow> e_name a = e_name b \<Longrightarrow> a = b"
  by (simp add: eresolved_def)

lemma enum_inv_names:
  assumes "enum_inv svc found"
  shows "distinct (map e_name found)"
proof -
  have "inj_on e_name (set found)"
    using assms by (auto intro!: inj_onI simp: enum_inv_def list_all_iff intro: eresolved_name_inj)
  then show ?thesis using assms by (simp add: distinct_map enum_inv_def)
qed

lemma enums_Some_iff:
  "enums n env svc intf = Some es \<longleftrightarrow>
     (\<exists>ts. types n env svc intf = Some ts \<and>
        es = sort_cmp (\<lambda>a b. localeCompare env (e_name a) (e_name b))
               (enums_types svc ts (enums_methods svc (int_methods intf) [])))"
  by (auto simp: enums_def split: option.splits)

lemma distinct_map_insort_cmp:
  "distinct (map f (insort_cmp c x ys)) = (f x \<notin> f ` set ys \<and> distinct (map f ys))"
  by (induction ys) (auto simp: set_insort_cmp)

lemma distinct_map_sort_cmp: "distinct (map f (sort_cmp c xs)) = distinct (map f xs)"
  by (induction xs)
     (simp_all add: sort_cmp_def distinct_map_insort_cmp set_sort_cmp[unfolded sort_cmp_def])

lemma enums_distinct_names:
  assumes "enums n env svc intf = Some es"
  shows "distinct (map e_name es)"
proof -
  from assms obtain ts where
    es: "es = sort_cmp (\<lambda>a b. localeCompare env (e_name a) (e_name b))
               (enums_types svc ts (enums_methods svc (int_methods intf) []))"
    unfolding enums_Some_iff by blast
  have "enum_inv svc []" by (simp add: enum_inv_def)
  then have "enum_inv svc (enums_types svc ts (enums_methods svc (int_methods intf) []))"
    by (intro enum_inv_types enum_inv_methods)
  then have "distinct (map e_name (enums_types svc ts (enums_methods svc (int_methods intf) [])))"
    by (rule enum_inv_names)
  then show ?thesis by (simp add: es distinct_map_sort_cmp)
qed

lemma enums_mono:
  assumes "enums n env svc intf = Some es" "n \<le> m"
  shows "enums m env svc intf = Some es"
proof -
  from assms(1) obtain ts where ts: "types n env svc intf = Some ts"
    and es: "es = sort_cmp (\<lambda>a b. localeCompare env (e_name a) (e_name b))
               (enums_types svc ts (enums_methods svc (int_methods intf) []))"
    unfolding enums_Some_iff by blast
  have "types m env svc intf = Some ts" using ts assms(2) by (rule types_mono)
  then show ?thesis unfolding enums_Some_iff using es by blast
qed

section \<open>Documents and files\<close>

lemma buildInterfaceDocs_Some_iff:
  "buildInterfaceDocs n env svc intf = Some doc \<longleftrightarrow>
     (\<exists>ts es. types n env svc intf = Some ts \<and> enums n env svc intf = Some es \<and>
        doc = document env svc intf ts es)"
  by (auto simp: buildInterfaceDocs_def buildToc_def document_def document_body_def split: option.splits)

lemma buildInterfaceDocs_mono:
  assumes "buildInterfaceDocs n env svc intf = Some doc" "n \<le> m"
  shows "buildInterfaceDocs m env svc intf = Some doc"
proof -
  from assms(1) obtain ts es where ts: "types n env svc intf = Some ts"
    and es: "enums n env svc intf = Some es"
    and doc: "doc = document env svc intf ts es"
    unfolding buildInterfaceDocs_Some_iff by blast
  have "types m env svc intf = Some ts" using ts assms(2) by (rule types_mono)
  moreover have "enums m env svc intf = Some es" using es assms(2) by (rule enums_mono)
  ultimately show ?thesis unfolding buildInterfaceDocs_Some_iff using doc by blast
qed

lemma buildInterfaceDocsFile_mono:
  assumes "buildInterfaceDocsFile n env svc intf = Some f" "n \<le> m"
  shows "buildInterfaceDocsFile m env svc intf = Some f"
proof -
  from assms(1) obtain doc where doc: "buildInterfaceDocs n env svc intf = Some doc"
    and f: "f = \<lparr>path = buildInterfaceDocsFilepath env intf svc, contents = from_lines doc\<rparr>"
    by (auto simp: buildInterfaceDocsFile_def split: option.splits)
  have "buildInterfaceDocs m env svc intf = Some doc"
    using doc assms(2) by (rule buildInterfaceDocs_mono)
  then show ?thesis by (simp add: buildInterfaceDocsFile_def f)
qed

lemma build_mono:
  assumes "build n env svc is = Some fs" "n \<le> m"
  shows "build m env svc is = Some fs"
  using assms(1)
proof (induction "is" arbitrary: fs)
  case Nil
  then show ?case by simp
next
  case (Cons a "is")
  from Cons.prems obtain f gs where f: "buildInterfaceDocsFile n env svc a = Some f"
    and gs: "build n env svc is = Some gs" and fs: "fs = f # gs"
    by (auto split: option.splits)
  have "buildInterfaceDocsFile m env svc a = Some f"
    using f assms(2) by (rule buildInterfaceDocsFile_mono)
  moreover have "build m env svc is = Some gs" using gs by (rule Cons.IH)
  ultimately show ?case by (simp add: fs)
qed

lemma generateDocs_mono:
  assumes "generateDocs n env svc = Some fs" "n \<le> m"
  shows "generateDocs m env svc = Some fs"
  using assms unfolding generateDocs_def by (rule build_mono)

lemma buildInterfaceDocs_acyclic:
  assumes "\<not> cyclic svc intf"
  shows "\<exists>doc. buildInterfaceDocs (Suc (length (svc_types svc))) env svc intf = Some doc"
proof -
  obtain ts where "types (Suc (length (svc_types svc))) env svc intf = Some ts"
    using types_acyclic[OF assms] by blast
  then show ?thesis
    by (simp add: buildInterfaceDocs_Some_iff enums_Some_iff)
qed

lemma buildInterfaceDocsFile_cyclic:
  assumes "cyclic svc intf"
  shows "buildInterfaceDocsFile n env svc intf = None"
  using types_cyclic[OF assms]
  by (simp add: buildInterfaceDocsFile_def buildInterfaceDocs_def)

lemma build_length:
  assumes "build n env svc is = Some fs"
  shows "length fs = length is"
  using assms by (induction "is" arbitrary: fs) (auto split: option.splits)

lemma buildInterfaceDocsFile_path:
  assumes "buildInterfaceDocsFile n env svc intf = Some f"
  shows "path f = buildInterfaceDocsFilepath env intf svc"
  using assms by (auto simp: buildInterfaceDocsFile_def split: option.splits)

lemma build_nth:
  assumes "build n env svc is = Some fs" "i < length is"
  shows "buildInterfaceDocsFile n env svc (is ! i) = Some (fs ! i)"
  using assms
proof (induction "is" arbitrary: fs i)
  case Nil
  then show ?case by simp
next
  case (Cons a "is")
  from Cons.prems(1) obtain f gs where f: "buildInterfaceDocsFile n env svc a = Some f"
    and gs: "build n env svc is = Some gs" and fs: "fs = f # gs"
    by (auto split: option.splits)
  show ?case
  proof (cases i)
    case 0
    then show ?thesis using f fs by simp
  next
    case (Suc j)
    then have "j < length is" using Cons.prems(2) by simp
    then show ?thesis using Cons.IH[OF gs] Suc fs by simp
  qed
qed

lemma build_paths:
  assumes "build n env svc is = Some fs"
  shows "map path fs = map (\<lambda>intf. buildInterfaceDocsFilepath env intf svc) is"
  using assms
  by (induction "is" arbitrary: fs) (auto simp: buildInterfaceDocsFile_def split: option.splits)

lemma build_terminates:
  assumes "\<And>intf. intf \<in> set is \<Longrightarrow> \<exists>doc. buildInterfaceDocs n env svc intf = Some doc"
  shows "\<exists>fs. build n env svc is = Some fs"
  using assms
proof (induction "is")
  case Nil
  show ?case by simp
next
  case (Cons a "is")
  then obtain doc fs where "buildInterfaceDocs n env svc a = Some doc" "build n env svc is = Some fs"
    by (meson list.set_intros)
  then show ?case by (simp add: buildInterfaceDocsFile_def)
qed

lemma build_None:
  assumes "intf \<in> set is" "buildInterfaceDocsFile n env svc intf = None"
  shows "build n env svc is = None"
  using assms by (induction "is") (auto split: option.splits)

lemma generateDocs_acyclic:
  assumes "\<And>intf. intf \<in> set (interfaces svc) \<Longrightarrow> \<not> cyclic svc intf"
  shows "\<exists>fs. generateDocs (Suc (length (svc_types svc))) env svc = Some fs"
  unfolding generateDocs_def
proof (rule build_terminates)
  fix intf assume "intf \<in> set (interfaces svc)"
  then have "\<not> cyclic svc intf" by (rule assms)
  then show "\<exists>doc. buildInterfaceDocs (Suc (length (svc_types svc))) env svc intf = Some doc"
    by (rule buildInterfaceDocs_acyclic)
qed

lemma generateDocs_cyclic:
  assumes "intf \<in> set (interfaces svc)" "cyclic svc intf"
  shows "generateDocs n env svc = None"
  unfolding generateDocs_def
  using assms(1) buildInterfaceDocsFile_cyclic[OF assms(2)] by (rule build_None)

section \<open>The concrete collation is a consistent comparison\<close>

lemma sample_localeCompare_total:
  "sample_localeCompare a b \<le> 0 \<or> sample_localeCompare b a \<le> 0"
  by (auto simp: sample_localeCompare_def)

lemma sample_localeCompare_le_iff:
  "sample_localeCompare a b \<le> 0 \<longleftrightarrow> collation_key a \<le> collation_key b"
  by (auto simp: sample_localeCompare_def)

lemma sample_localeCompare_trans:
  "sample_localeCompare a b \<le> 0 \<Longrightarrow> sample_localeCompare b c \<le> 0 \<Longrightarrow> sample_localeCompare a c \<le> 0"
  unfolding sample_localeCompare_le_iff by (rule order_trans)

lemma localeCompare_sample_env: "localeCompare sample_env = sample_localeCompare"
  by (simp add: sample_env_def)

section \<open>The claims\<close>

subsection \<open>Facts about the example models\<close>

lemma node_refs: "refs nodes_svc node_type = [node_type]"
  by code_simp

lemma node_roots: "roots nodes_svc nodes_intf = [node_type]"
  by code_simp

lemma node_diverges: "traverseType n nodes_svc node_type = None"
  by (induction n) (simp_all add: traverseType_refs node_refs)

lemma nodes_cyclic: "cyclic nodes_svc nodes_intf"
proof -
  have "reachable nodes_svc nodes_intf node_type"
    by (rule reachable.root) (simp add: node_roots)
  moreover have "on_cycle nodes_svc node_type"
    by (auto simp: on_cycle_def node_refs intro: descendants.self)
  ultimately show ?thesis by (auto simp: cyclic_def)
qed

lemma ping_refs: "refs echo_svc ping_type = [pong_type]" "refs echo_svc pong_type = [ping_type]"
  by code_simp+

lemma echo_roots: "roots echo_svc echo_intf = [ping_type]"
  by code_simp

lemma ping_diverges:
  "traverseType n echo_svc ping_type = None \<and> traverseType n echo_svc pong_type = None"
  by (induction n) (simp_all add: traverseType_refs ping_refs)

lemma echo_cyclic: "cyclic echo_svc echo_intf"
proof -
  have "reachable echo_svc echo_intf ping_type"
    by (rule reachable.root) (simp add: echo_roots)
  moreover have "ping_type \<in> descendants echo_svc pong_type"
    by (rule descendants.child[OF descendants.self]) (simp add: ping_refs)
  then have "on_cycle echo_svc ping_type"
    by (auto simp: on_cycle_def ping_refs)
  ultimately show ?thesis by (auto simp: cyclic_def)
qed

text \<open>A registry that holds no type, or the types \<open>widget\<close> and \<open>maker\<close> only, has no cycle.\<close>

lemma registry_rank_not_cyclic:
  assumes "\<And>t s. t \<in> set (svc_types svc) \<Longrightarrow> s \<in> set (refs svc t) \<Longrightarrow> rank s < (rank t :: nat)"
  shows "\<not> cyclic svc intf"
proof (rule rank_not_cyclic)
  fix t s assume "reachable svc intf t" and s: "s \<in> set (refs svc t)"
  then have "t \<in> set (svc_types svc)"
    by (intro resolved_in_registry reachable_resolved)
  then show "rank s < rank t" using s by (rule assms)
qed

lemma empty_registry_acyclic:
  assumes "svc_types svc = []"
  shows "\<not> cyclic svc intf"
  by (rule registry_rank_not_cyclic[where rank = "\<lambda>t. 0"]) (simp add: assms)

lemma widget_registry_acyclic:
  assumes "svc_types svc = [widget_type, maker_type]"
  shows "\<not> cyclic svc intf"
proof (rule registry_rank_not_cyclic[where rank = "\<lambda>t. length (properties t)"])
  fix t s assume t: "t \<in> set (svc_types svc)" and s: "s \<in> set (refs svc t)"
  have "refs svc widget_type = [maker_type]" "refs svc maker_type = []"
    by (simp_all add: refs_def resolve_def getTypeByName_def assms widget_type_def
          maker_type_def named_def prim_def)
  moreover have "length (properties maker_type) < length (properties widget_type)"
    by code_simp
  ultimately show "length (properties s) < length (properties t)"
    using t s by (auto simp: assms)
qed

lemma widgets_acyclic: "\<not> cyclic widgets_svc intf"
  by (rule widget_registry_acyclic) (simp add: widgets_svc_def)

lemma adopt_acyclic: "\<not> cyclic adopt_svc intf"
  by (rule widget_registry_acyclic) (simp add: adopt_svc_def)

lemma shop_acyclic: "\<not> cyclic shop_svc intf"
  by (rule widget_registry_acyclic) (simp add: shop_svc_def)

lemma orders_acyclic: "\<not> cyclic orders_svc intf"
  by (rule widget_registry_acyclic) (simp add: orders_svc_def)

subsection \<open>C1: the reachable types of a cyclic model\<close>

text \<open>
  C1, as stated, fails. \<open>traverseType\<close> keeps no visited set: on the type \<open>node\<close>, whose
  property \<open>next\<close> is a \<open>node\<close>, it enters \<open>node\<close> again at every depth, so \<open>types\<close> returns
  for no depth.
\<close>

theorem cyclic_types_never_return:
  "\<not> (\<exists>n ts. types n sample_env nodes_svc nodes_intf = Some ts)"
  by (simp add: types_Some_iff node_roots node_diverges)

text \<open>
  Also without a cycle a type is expanded once for every path that leads to it: the two
  properties of \<open>pair\<close> are of type \<open>maker\<close>, and the traversal yields \<open>maker\<close> twice. Only
  the set that collects the yielded types makes the entry single.
\<close>

lemma shared_type_expanded_twice:
  "traverseType 2 pairs_svc pair_type = Some [pair_type, maker_type, maker_type]
   \<and> types 2 sample_env pairs_svc pairs_intf = Some [maker_type, pair_type]"
  by code_simp

text \<open>
  C1, amended. When no type that the interface reaches lies on a cycle of references,
  \<open>types\<close> returns at every depth above the number of types in the registry, always the
  same list; the list holds exactly the types the interface reaches, and no two of its
  entries have the same name. When the interface reaches a type that lies on a cycle, be it
  a type that refers to itself or a longer chain, \<open>types\<close> returns at no depth.
\<close>

theorem reachable_types_return_iff_acyclic:
  "(\<not> cyclic svc intf \<longrightarrow>
      (\<exists>ts. (\<forall>n>length (svc_types svc). types n env svc intf = Some ts)
           \<and> set ts = {t. reachable svc intf t}
           \<and> distinct (map t_name ts)))
   \<and> (cyclic svc intf \<longrightarrow> (\<forall>n. types n env svc intf = None))"
proof (intro conjI impI allI)
  assume "\<not> cyclic svc intf"
  then obtain ts where ts: "types (Suc (length (svc_types svc))) env svc intf = Some ts"
    using types_acyclic by blast
  have "\<forall>n>length (svc_types svc). types n env svc intf = Some ts"
    using types_mono[OF ts] by (simp add: Suc_le_eq)
  moreover have "set ts = {t. reachable svc intf t}" using ts by (rule types_set)
  moreover have "distinct (map t_name ts)" using ts by (rule types_distinct_names)
  ultimately show "\<exists>ts. (\<forall>n>length (svc_types svc). types n env svc intf = Some ts)
           \<and> set ts = {t. reachable svc intf t}
           \<and> distinct (map t_name ts)"
    by blast
next
  fix n assume "cyclic svc intf"
  then show "types n env svc intf = None" by (rule types_cyclic)
qed

theorem reachable_types_return_iff_acyclic_witness:
  "(\<exists>ts. types 3 sample_env widgets_svc widgets_intf = Some ts
        \<and> set ts = {t. reachable widgets_svc widgets_intf t}
        \<and> distinct (map t_name ts))
   \<and> (\<forall>n. types n sample_env nodes_svc nodes_intf = None)"
proof -
  have l: "length (svc_types widgets_svc) = 2"
    by code_simp
  have "\<exists>ts. (\<forall>n>2. types n sample_env widgets_svc widgets_intf = Some ts)
        \<and> set ts = {t. reachable widgets_svc widgets_intf t}
        \<and> distinct (map t_name ts)"
    using reachable_types_return_iff_acyclic[where svc = widgets_svc and intf = widgets_intf
        and env = sample_env]
      widgets_acyclic[of widgets_intf]
    unfolding l by blast
  moreover have "\<forall>n. types n sample_env nodes_svc nodes_intf = None"
    using reachable_types_return_iff_acyclic[where svc = nodes_svc and intf = nodes_intf
        and env = sample_env] nodes_cyclic
    by blast
  ultimately show ?thesis by force
qed

subsection \<open>C2: a parameter whose type is in no registry\<close>

text \<open>
  C2, as stated, fails. \<open>buildLinkedTypeName\<close> looks nothing up: the parameter \<open>owner\<close> of
  type \<open>ghost\<close>, which is neither a type nor an enum of the model, is rendered as a link and
  not as a bare name, both with a name factory that names every reference after its type
  name and with one that answers \<open>T.untyped\<close> for a name it does not find. With the latter
  the prefix that \<open>buildTypeName\<close> strips is longer than the name, and the link is empty.
\<close>

theorem dangling_parameter_is_linked:
  "buildParameter sample_env adopt_svc (named ''owner'' ''ghost'' True) = ''- `owner` [Ghost](#ghost)''
   \<and> buildParameter lookup_env adopt_svc (named ''owner'' ''ghost'' True) = ''- `owner` [](#)''
   \<and> getTypeByName adopt_svc ''ghost'' = None
   \<and> getEnumByName adopt_svc ''ghost'' = None"
  by code_simp

text \<open>
  C2, amended. A parameter that is not primitive and whose type name is absent from the
  registry is rendered through the branch of every named reference, with no lookup: its
  line holds a link whose text is the name that the name factory of
  \<^verbatim>\<open>@basketry/sorbet\<close> gives the reference, without the namespace and the two colons in
  front, and whose target is the anchor of that text. So the line shows the type name in
  Pascal case when the factory names the reference like a type that exists, and an empty
  link when the factory answers a name that is not longer than the stripped prefix.
  \<open>types\<close> skips the parameter (the loop goes on as if the parameter were not there), and
  no type of that name is among the types it returns.
\<close>

theorem dangling_parameter_skipped:
  assumes "\<not> isPrimitive param" and "getTypeByName svc (typeName param) = None"
  shows "buildParameter env svc param =
           ''- `'' @ buildParameterName env param @ ''` ''
             @ buildLinkedTypeName env svc param
             @ (if isRequired param then '''' else '' (optional)'')
             @ buildParameterDescription param
         \<and> buildLinkedTypeName env svc param =
             ''['' @ drop (length (buildTypeNamespace env svc) + 2)
                       (sorbet_buildTypeName env svc (ReturnType.truncate param) True)
              @ '']('' @
              anchor (drop (length (buildTypeNamespace env svc) + 2)
                        (sorbet_buildTypeName env svc (ReturnType.truncate param) True))
              @ '')'' @ (if isArray param then ''[]'' else '''')
         \<and> (sorbet_buildTypeName env svc (ReturnType.truncate param) True
               = buildTypeNamespace env svc @ ''::'' @ pascal env (typeName param)
             \<longrightarrow> buildLinkedTypeName env svc param =
                   ''['' @ pascal env (typeName param) @ '']('' @
                   anchor (pascal env (typeName param)) @ '')''
                   @ (if isArray param then ''[]'' else ''''))
         \<and> (length (sorbet_buildTypeName env svc (ReturnType.truncate param) True)
               \<le> length (buildTypeNamespace env svc) + 2
             \<longrightarrow> buildLinkedTypeName env svc param
                   = ''[](#)'' @ (if isArray param then ''[]'' else ''''))
         \<and> types_params n svc (param # ps) foundTypes = types_params n svc ps foundTypes
         \<and> (\<forall>ts. types n env svc intf = Some ts \<longrightarrow> typeName param \<notin> set (map t_name ts))"
proof -
  have absent: "typeName param \<notin> set (map t_name ts)"
    if ts: "types n env svc intf = Some ts" for ts
  proof
    assume "typeName param \<in> set (map t_name ts)"
    then obtain t where t: "t \<in> set ts" "t_name t = typeName param" by auto
    have "reachable svc intf t" using types_set[OF ts] t(1) by simp
    then have "t \<in> set (svc_types svc)"
      by (intro resolved_in_registry reachable_resolved)
    then show False using assms(2) t(2) by (simp add: getTypeByName_None)
  qed
  have skip: "types_params n svc (param # ps) foundTypes = types_params n svc ps foundTypes"
    using assms by (simp add: types_params_Cons resolve_def)
  have line: "buildParameter env svc param =
           ''- `'' @ buildParameterName env param @ ''` ''
             @ buildLinkedTypeName env svc param
             @ (if isRequired param then '''' else '' (optional)'')
             @ buildParameterDescription param"
    by (simp add: buildParameter_def)
  have link: "buildLinkedTypeName env svc param =
             ''['' @ drop (length (buildTypeNamespace env svc) + 2)
                       (sorbet_buildTypeName env svc (ReturnType.truncate param) True)
              @ '']('' @
              anchor (drop (length (buildTypeNamespace env svc) + 2)
                        (sorbet_buildTypeName env svc (ReturnType.truncate param) True))
              @ '')'' @ (if isArray param then ''[]'' else '''')"
    using assms(1) by (simp add: buildLinkedTypeName_def buildTypeName_def Let_def)
  have pascal_case: "buildLinkedTypeName env svc param =
                   ''['' @ pascal env (typeName param) @ '']('' @
                   anchor (pascal env (typeName param)) @ '')''
                   @ (if isArray param then ''[]'' else '''')"
    if "sorbet_buildTypeName env svc (ReturnType.truncate param) True
               = buildTypeNamespace env svc @ ''::'' @ pascal env (typeName param)"
    unfolding link that by simp
  have anchor_empty: "anchor [] = ''#''"
    by code_simp
  have empty: "buildLinkedTypeName env svc param
                   = ''[](#)'' @ (if isArray param then ''[]'' else '''')"
    if "length (sorbet_buildTypeName env svc (ReturnType.truncate param) True)
               \<le> length (buildTypeNamespace env svc) + 2"
    unfolding link using that by (simp add: anchor_empty)
  show ?thesis using line link pascal_case empty skip absent by blast
qed

theorem dangling_parameter_skipped_witness:
  "buildLinkedTypeName sample_env adopt_svc (named ''owner'' ''ghost'' True) = ''[Ghost](#ghost)''
   \<and> buildLinkedTypeName lookup_env adopt_svc (named ''owner'' ''ghost'' True) = ''[](#)''
   \<and> types_params 3 adopt_svc (parameters adopt) []
       = types_params 3 adopt_svc (tl (parameters adopt)) []
   \<and> (\<exists>ts. types 3 sample_env adopt_svc adopt_intf = Some ts \<and> ''ghost'' \<notin> set (map t_name ts))
   \<and> (\<exists>fs. generateDocs 3 sample_env adopt_svc = Some fs)"
proof -
  let ?p = "named ''owner'' ''ghost'' True"
  have p: "parameters adopt = ?p # tl (parameters adopt)"
    by code_simp
  have h: "\<not> isPrimitive ?p" "getTypeByName adopt_svc (typeName ?p) = None"
    "typeName ?p = ''ghost''" "\<not> isArray ?p"
    by code_simp+
  have s: "sorbet_buildTypeName sample_env adopt_svc (ReturnType.truncate ?p) True
             = buildTypeNamespace sample_env adopt_svc @ ''::'' @ pascal sample_env (typeName ?p)"
    by code_simp
  have sv: "pascal sample_env (typeName ?p) = ''Ghost''" "anchor ''Ghost'' = ''#ghost''"
    by code_simp+
  have l: "length (sorbet_buildTypeName lookup_env adopt_svc (ReturnType.truncate ?p) True)
             \<le> length (buildTypeNamespace lookup_env adopt_svc) + 2"
    by code_simp
  have n: "Suc (length (svc_types adopt_svc)) = 3"
    by code_simp
  obtain ts where ts: "types 3 sample_env adopt_svc adopt_intf = Some ts"
    using types_acyclic[OF adopt_acyclic, where intf = adopt_intf and env = sample_env]
    unfolding n by blast
  obtain fs where fs: "generateDocs 3 sample_env adopt_svc = Some fs"
    using generateDocs_acyclic[where svc = adopt_svc and env = sample_env] adopt_acyclic
    unfolding n by blast
  have "buildLinkedTypeName sample_env adopt_svc ?p =
          ''['' @ pascal sample_env (typeName ?p) @ '']('' @
          anchor (pascal sample_env (typeName ?p)) @ '')''
          @ (if isArray ?p then ''[]'' else '''')"
    using dangling_parameter_skipped[OF h(1,2), where env = sample_env and n = 3 and ps = "[]"
        and foundTypes = "[]" and intf = adopt_intf] s
    by blast
  then have a: "buildLinkedTypeName sample_env adopt_svc ?p = ''[Ghost](#ghost)''"
    unfolding sv using h(4) by simp
  have "buildLinkedTypeName lookup_env adopt_svc ?p
          = ''[](#)'' @ (if isArray ?p then ''[]'' else '''')"
    using dangling_parameter_skipped[OF h(1,2), where env = lookup_env and n = 3 and ps = "[]"
        and foundTypes = "[]" and intf = adopt_intf] l
    by blast
  then have b: "buildLinkedTypeName lookup_env adopt_svc ?p = ''[](#)''"
    using h(4) by simp
  have c: "types_params 3 adopt_svc (parameters adopt) []
       = types_params 3 adopt_svc (tl (parameters adopt)) []"
    using dangling_parameter_skipped[OF h(1,2), where env = sample_env and n = 3
        and ps = "tl (parameters adopt)" and foundTypes = "[]" and intf = adopt_intf] p
    by metis
  have d: "''ghost'' \<notin> set (map t_name ts)"
    using dangling_parameter_skipped[OF h(1,2), where env = sample_env and n = 3 and ps = "[]"
        and foundTypes = "[]" and intf = adopt_intf] ts h(3)
    by metis
  show ?thesis using a b c d ts fs by blast
qed

subsection \<open>C3: the order of methods, types and enums\<close>

text \<open>
  C3, as stated, fails. The lists are sorted with \<open>localeCompare\<close>, which is not the ordinal
  comparison of code units: \<^verbatim>\<open>'alpha'.localeCompare('Zeta')\<close> is negative, so the method
  \<open>alpha\<close> is listed before \<open>Zeta\<close>, although \<open>Zeta\<close> is the smaller string in ordinal order.
  Nor is the order strict: the collation ignores the character U+0001, so two methods with
  different names compare equal and stay in the order of the model.
\<close>

theorem methods_not_in_ordinal_order:
  "map m_name (methods sample_env letters_intf) = [''alpha'', ''Zeta'']
   \<and> \<not> sorted_wrt (\<lambda>a b. m_name a < m_name b) (methods sample_env letters_intf)
   \<and> distinct (map m_name (int_methods ties_intf))
   \<and> methods sample_env ties_intf = [ab_marked, ab_plain]
   \<and> localeCompare sample_env (m_name ab_marked) (m_name ab_plain) = 0
   \<and> \<not> sorted_wrt (\<lambda>a b. localeCompare sample_env (m_name a) (m_name b) < 0)
         (methods sample_env ties_intf)"
  by code_simp

text \<open>
  C3, amended. Let \<open>localeCompare\<close> be a consistent comparison (total and transitive). Then
  a rendered document is made of the table of contents and the sections of three lists:
  the methods, the reachable types and the reachable enums, each in ascending order of
  their names under \<open>localeCompare\<close>. The order of a list is strict when \<open>localeCompare\<close> is
  zero on no two different names of that list (and, for the methods, no two methods of the
  interface have the same name).
\<close>

theorem lists_ordered_by_localeCompare:
  assumes total: "\<forall>a b. localeCompare env a b \<le> 0 \<or> localeCompare env b a \<le> 0"
    and trans: "\<forall>a b c. localeCompare env a b \<le> 0 \<longrightarrow> localeCompare env b c \<le> 0
                  \<longrightarrow> localeCompare env a c \<le> 0"
    and doc: "buildInterfaceDocs n env svc intf = Some doc"
  shows "\<exists>ts es.
           doc = warning_lines env svc
                 @ ['''', ''# '' @ title env (buildInterfaceName env intf), '''']
                 @ toc_lines env (methods env intf) ts es @ ['''']
                 @ section_lines env svc (methods env intf) ts es
         \<and> types n env svc intf = Some ts
         \<and> enums n env svc intf = Some es
         \<and> sorted_wrt (\<lambda>a b. localeCompare env (m_name a) (m_name b) \<le> 0) (methods env intf)
         \<and> sorted_wrt (\<lambda>a b. localeCompare env (t_name a) (t_name b) \<le> 0) ts
         \<and> sorted_wrt (\<lambda>a b. localeCompare env (e_name a) (e_name b) \<le> 0) es
         \<and> (distinct (map m_name (int_methods intf))
              \<and> (\<forall>a\<in>set (map m_name (int_methods intf)).
                    \<forall>b\<in>set (map m_name (int_methods intf)).
                      localeCompare env a b = 0 \<longrightarrow> a = b)
             \<longrightarrow> sorted_wrt (\<lambda>a b. localeCompare env (m_name a) (m_name b) < 0)
                   (methods env intf))
         \<and> ((\<forall>a\<in>set (map t_name ts). \<forall>b\<in>set (map t_name ts).
                 localeCompare env a b = 0 \<longrightarrow> a = b)
             \<longrightarrow> sorted_wrt (\<lambda>a b. localeCompare env (t_name a) (t_name b) < 0) ts)
         \<and> ((\<forall>a\<in>set (map e_name es). \<forall>b\<in>set (map e_name es).
                 localeCompare env a b = 0 \<longrightarrow> a = b)
             \<longrightarrow> sorted_wrt (\<lambda>a b. localeCompare env (e_name a) (e_name b) < 0) es)"
proof -
  from doc obtain ts es where ts: "types n env svc intf = Some ts"
    and es: "enums n env svc intf = Some es"
    and d: "doc = document env svc intf ts es"
    unfolding buildInterfaceDocs_Some_iff by blast
  have le: "sorted_wrt (\<lambda>a b. localeCompare env (f a) (f b) \<le> 0)
              (sort_cmp (\<lambda>a b. localeCompare env (f a) (f b)) xs)" for f :: "'a \<Rightarrow> string" and xs
    by (rule sorted_sort_cmp) (use total trans in blast)+
  have strict: "sorted_wrt (\<lambda>a b. localeCompare env (f a) (f b) < 0) ys"
    if "sorted_wrt (\<lambda>a b. localeCompare env (f a) (f b) \<le> 0) ys" "distinct (map f ys)"
      "\<forall>a\<in>set (map f ys). \<forall>b\<in>set (map f ys). localeCompare env a b = 0 \<longrightarrow> a = b"
    for f :: "'a \<Rightarrow> string" and ys
    using that(1,2)
  proof (rule sorted_wrt_strict)
    fix a b assume "a \<in> set ys" "b \<in> set ys" "localeCompare env (f a) (f b) = 0"
    then show "f a = f b" using that(3) by simp
  qed
  have ms: "sorted_wrt (\<lambda>a b. localeCompare env (m_name a) (m_name b) \<le> 0) (methods env intf)"
    unfolding methods_def by (rule le)
  have tsl: "sorted_wrt (\<lambda>a b. localeCompare env (t_name a) (t_name b) \<le> 0) ts"
    using ts le[of t_name] by (auto simp: types_Some_iff)
  have esl: "sorted_wrt (\<lambda>a b. localeCompare env (e_name a) (e_name b) \<le> 0) es"
    using es le[of e_name] by (auto simp: enums_Some_iff)
  have mset: "set (map m_name (methods env intf)) = set (map m_name (int_methods intf))"
    by (simp add: methods_def set_sort_cmp)
  have mss: "sorted_wrt (\<lambda>a b. localeCompare env (m_name a) (m_name b) < 0) (methods env intf)"
    if "distinct (map m_name (int_methods intf))"
      "\<forall>a\<in>set (map m_name (int_methods intf)). \<forall>b\<in>set (map m_name (int_methods intf)).
         localeCompare env a b = 0 \<longrightarrow> a = b"
  proof (rule strict[OF ms])
    show "distinct (map m_name (methods env intf))"
      using that(1) by (simp add: methods_def distinct_map_sort_cmp)
    show "\<forall>a\<in>set (map m_name (methods env intf)). \<forall>b\<in>set (map m_name (methods env intf)).
            localeCompare env a b = 0 \<longrightarrow> a = b"
      unfolding mset by (rule that(2))
  qed
  have tss: "sorted_wrt (\<lambda>a b. localeCompare env (t_name a) (t_name b) < 0) ts"
    if "\<forall>a\<in>set (map t_name ts). \<forall>b\<in>set (map t_name ts). localeCompare env a b = 0 \<longrightarrow> a = b"
    using tsl types_distinct_names[OF ts] that by (rule strict)
  have ess: "sorted_wrt (\<lambda>a b. localeCompare env (e_name a) (e_name b) < 0) es"
    if "\<forall>a\<in>set (map e_name es). \<forall>b\<in>set (map e_name es). localeCompare env a b = 0 \<longrightarrow> a = b"
    using esl enums_distinct_names[OF es] that by (rule strict)
  have d': "doc = warning_lines env svc
                 @ ['''', ''# '' @ title env (buildInterfaceName env intf), '''']
                 @ toc_lines env (methods env intf) ts es @ ['''']
                 @ section_lines env svc (methods env intf) ts es"
    using d by (simp add: document_def document_body_def)
  show ?thesis
  proof (rule exI[of _ ts], rule exI[of _ es], intro conjI impI)
    show "doc = warning_lines env svc
                 @ ['''', ''# '' @ title env (buildInterfaceName env intf), '''']
                 @ toc_lines env (methods env intf) ts es @ ['''']
                 @ section_lines env svc (methods env intf) ts es"
      by (rule d')
    show "types n env svc intf = Some ts" by (rule ts)
    show "enums n env svc intf = Some es" by (rule es)
    show "sorted_wrt (\<lambda>a b. localeCompare env (m_name a) (m_name b) \<le> 0) (methods env intf)"
      by (rule ms)
    show "sorted_wrt (\<lambda>a b. localeCompare env (t_name a) (t_name b) \<le> 0) ts" by (rule tsl)
    show "sorted_wrt (\<lambda>a b. localeCompare env (e_name a) (e_name b) \<le> 0) es" by (rule esl)
  next
    assume "distinct (map m_name (int_methods intf))
              \<and> (\<forall>a\<in>set (map m_name (int_methods intf)).
                    \<forall>b\<in>set (map m_name (int_methods intf)).
                      localeCompare env a b = 0 \<longrightarrow> a = b)"
    then show "sorted_wrt (\<lambda>a b. localeCompare env (m_name a) (m_name b) < 0)
                   (methods env intf)"
      using mss by (elim conjE)
  next
    assume "\<forall>a\<in>set (map t_name ts). \<forall>b\<in>set (map t_name ts).
                 localeCompare env a b = 0 \<longrightarrow> a = b"
    then show "sorted_wrt (\<lambda>a b. localeCompare env (t_name a) (t_name b) < 0) ts"
      by (rule tss)
  next
    assume "\<forall>a\<in>set (map e_name es). \<forall>b\<in>set (map e_name es).
                 localeCompare env a b = 0 \<longrightarrow> a = b"
    then show "sorted_wrt (\<lambda>a b. localeCompare env (e_name a) (e_name b) < 0) es"
      by (rule ess)
  qed
qed

theorem lists_ordered_by_localeCompare_witness:
  "map m_name (methods sample_env orders_intf) = [''getOrder'', ''listOrders'']
   \<and> types 3 sample_env orders_svc orders_intf = Some [maker_type, widget_type]
   \<and> enums 3 sample_env orders_svc orders_intf = Some [priority_enum, status_enum]
   \<and> sorted_wrt (\<lambda>a b. localeCompare sample_env (m_name a) (m_name b) < 0)
        (methods sample_env orders_intf)
   \<and> sorted_wrt (\<lambda>a b. localeCompare sample_env (t_name a) (t_name b) < 0)
        [maker_type, widget_type]
   \<and> sorted_wrt (\<lambda>a b. localeCompare sample_env (e_name a) (e_name b) < 0)
        [priority_enum, status_enum]"
proof -
  have ts: "types 3 sample_env orders_svc orders_intf = Some [maker_type, widget_type]"
    by code_simp
  have es: "enums 3 sample_env orders_svc orders_intf = Some [priority_enum, status_enum]"
    by code_simp
  have ms: "map m_name (methods sample_env orders_intf) = [''getOrder'', ''listOrders'']"
    by code_simp
  obtain doc where doc: "buildInterfaceDocs 3 sample_env orders_svc orders_intf = Some doc"
    using ts es by (auto simp: buildInterfaceDocs_Some_iff)
  have m: "distinct (map m_name (int_methods orders_intf))
      \<and> (\<forall>a\<in>set (map m_name (int_methods orders_intf)).
            \<forall>b\<in>set (map m_name (int_methods orders_intf)).
              localeCompare sample_env a b = 0 \<longrightarrow> a = b)"
    by code_simp
  have t: "\<forall>a\<in>set (map t_name [maker_type, widget_type]).
             \<forall>b\<in>set (map t_name [maker_type, widget_type]).
               localeCompare sample_env a b = 0 \<longrightarrow> a = b"
    by code_simp
  have e: "\<forall>a\<in>set (map e_name [priority_enum, status_enum]).
             \<forall>b\<in>set (map e_name [priority_enum, status_enum]).
               localeCompare sample_env a b = 0 \<longrightarrow> a = b"
    by code_simp
  have total: "\<forall>a b. localeCompare sample_env a b \<le> 0 \<or> localeCompare sample_env b a \<le> 0"
    unfolding localeCompare_sample_env using sample_localeCompare_total by blast
  have trans: "\<forall>a b c. localeCompare sample_env a b \<le> 0 \<longrightarrow> localeCompare sample_env b c \<le> 0
                 \<longrightarrow> localeCompare sample_env a c \<le> 0"
    unfolding localeCompare_sample_env using sample_localeCompare_trans by blast
  obtain ts' es' where ts': "types 3 sample_env orders_svc orders_intf = Some ts'"
    and es': "enums 3 sample_env orders_svc orders_intf = Some es'"
    and sm: "distinct (map m_name (int_methods orders_intf))
              \<and> (\<forall>a\<in>set (map m_name (int_methods orders_intf)).
                    \<forall>b\<in>set (map m_name (int_methods orders_intf)).
                      localeCompare sample_env a b = 0 \<longrightarrow> a = b)
             \<longrightarrow> sorted_wrt (\<lambda>a b. localeCompare sample_env (m_name a) (m_name b) < 0)
                   (methods sample_env orders_intf)"
    and st: "(\<forall>a\<in>set (map t_name ts'). \<forall>b\<in>set (map t_name ts').
                 localeCompare sample_env a b = 0 \<longrightarrow> a = b)
             \<longrightarrow> sorted_wrt (\<lambda>a b. localeCompare sample_env (t_name a) (t_name b) < 0) ts'"
    and se: "(\<forall>a\<in>set (map e_name es'). \<forall>b\<in>set (map e_name es').
                 localeCompare sample_env a b = 0 \<longrightarrow> a = b)
             \<longrightarrow> sorted_wrt (\<lambda>a b. localeCompare sample_env (e_name a) (e_name b) < 0) es'"
    using lists_ordered_by_localeCompare[where env = sample_env and intf = orders_intf
        and svc = orders_svc and n = 3 and doc = doc, OF total trans doc]
    by (elim exE conjE) (rule that, assumption+)
  have tseq: "ts' = [maker_type, widget_type]" using ts ts' by simp
  have eseq: "es' = [priority_enum, status_enum]" using es es' by simp
  have "sorted_wrt (\<lambda>a b. localeCompare sample_env (m_name a) (m_name b) < 0)
          (methods sample_env orders_intf)"
    using sm m by (rule mp)
  moreover have "sorted_wrt (\<lambda>a b. localeCompare sample_env (t_name a) (t_name b) < 0)
          [maker_type, widget_type]"
    using st[unfolded tseq] t by (rule mp)
  moreover have "sorted_wrt (\<lambda>a b. localeCompare sample_env (e_name a) (e_name b) < 0)
          [priority_enum, status_enum]"
    using se[unfolded eseq] e by (rule mp)
  ultimately show ?thesis using ms ts es by (intro conjI)
qed

subsection \<open>C4: anchors of the table of contents\<close>

text \<open>
  The first half of C4 holds.
\<close>

lemma anchor_get_widget: "anchor ''Get Widget'' = ''#get-widget''"
  by code_simp

text \<open>
  For a method the table of contents links to the anchor of the text of its heading.
\<close>

lemma toc_method_anchor:
  "toc_lines env [method] [] [] =
     [''- Methods'',
      ''  - ['' @ buildMethodName env method @ '']('' @
        anchor (drop 4 (hd (buildMethodDocs env svc method))) @ '')'']"
  by (simp add: toc_lines_def buildMethodDocs_def)

text \<open>
  C4 fails on the code for types and enums: their entry in the table of contents links to
  the anchor of the raw name, while the heading shows the name in Pascal case. For the type
  \<open>widget_item\<close> the entry points at \<open>#widget_item\<close>; the heading is \<open>WidgetItem\<close>, whose
  anchor is \<open>#widgetitem\<close>, the target that \<open>buildLinkedTypeName\<close> uses for the same type.
\<close>

theorem toc_type_anchor_differs_from_heading:
  "toc_lines sample_env [] [widget_item] [] = [''- Types'', ''  - [WidgetItem](#widget_item)'']
   \<and> hd (buildTypeDocs sample_env items_svc widget_item) = ''### WidgetItem''
   \<and> anchor ''WidgetItem'' = ''#widgetitem''
   \<and> buildLinkedTypeName sample_env items_svc (named ''item'' ''widget_item'' True)
       = ''[WidgetItem](#widgetitem)''"
  by code_simp

subsection \<open>C5: the array marker of a returned type\<close>

text \<open>
  C5 fails on the code: \<open>buildLinkedTypeName\<close> already appends the array marker, and
  \<open>buildMethodDocs\<close> appends it once more on the line of the return type. The method
  \<open>listWidgets\<close> returns an array of \<open>widget\<close>.
\<close>

theorem returns_line_array_marker_twice:
  "buildMethodDocs sample_env widgets_svc list_widgets ! 4 = ''Returns: [Widget](#widget)[][]''"
  by code_simp

text \<open>The same holds in every environment and for every array return type.\<close>

lemma returns_line_array:
  assumes "returnType method = Some rt" "isArray rt" "\<not> isPrimitive rt" "parameters method = []"
  shows "buildMethodDocs env svc method ! 4 =
           ''Returns: ['' @ buildTypeName env svc rt True @ '']('' @
             anchor (buildTypeName env svc rt True) @ '')[][]''"
  using assms by (simp add: buildMethodDocs_def buildLinkedTypeName_def Let_def)

subsection \<open>C6: required parameters first in the signature\<close>

text \<open>
  C6: \<open>sortParameters\<close> puts the required parameters first and keeps the order of the model
  within the required and within the optional ones; the call signature lists the
  parameters in that order.
\<close>

theorem signature_required_first:
  "sortParameters ps = filter isRequired ps @ filter (\<lambda>p. \<not> isRequired p) ps
   \<and> buildMethodDefinition env method =
       buildMethodName env method
         @ (if parameters method \<noteq> []
            then ''('' @ join '', ''
                   (map (\<lambda>param. buildParameterName env param @ '':''
                           @ (if isRequired param then '''' else '' nil''))
                      (filter isRequired (parameters method)
                         @ filter (\<lambda>p. \<not> isRequired p) (parameters method))) @ '')''
            else '''')"
  by (simp add: buildMethodDefinition_def sortParameters_partition)

theorem signature_required_first_witness:
  "map p_name (parameters search) = [''optionalA'', ''requiredB'', ''optionalC'', ''requiredD'']
   \<and> map p_name (sortParameters (parameters search))
       = [''requiredB'', ''requiredD'', ''optionalA'', ''optionalC'']
   \<and> buildMethodDefinition sample_env search
       = ''search(required_b:, required_d:, optional_a: nil, optional_c: nil)''"
proof -
  have "map p_name (filter isRequired (parameters search)
          @ filter (\<lambda>p. \<not> isRequired p) (parameters search))
        = [''requiredB'', ''requiredD'', ''optionalA'', ''optionalC'']"
    by code_simp
  moreover have "map p_name (parameters search)
        = [''optionalA'', ''requiredB'', ''optionalC'', ''requiredD'']"
    by code_simp
  moreover have "buildMethodName sample_env search
         @ (if parameters search \<noteq> []
            then ''('' @ join '', ''
                   (map (\<lambda>param. buildParameterName sample_env param @ '':''
                           @ (if isRequired param then '''' else '' nil''))
                      (filter isRequired (parameters search)
                         @ filter (\<lambda>p. \<not> isRequired p) (parameters search))) @ '')''
            else '''')
        = ''search(required_b:, required_d:, optional_a: nil, optional_c: nil)''"
    by code_simp
  ultimately show ?thesis
    using signature_required_first[of "parameters search" sample_env search] by simp
qed

subsection \<open>C7: one document for each interface\<close>

text \<open>
  C7, as stated, fails twice. The service \<open>echo_svc\<close> has one interface, whose method takes
  a \<open>ping\<close>; \<open>ping\<close> refers to \<open>pong\<close> and \<open>pong\<close> to \<open>ping\<close>. The traversal of either never
  ends, so the generator returns no document at all. And a document need not have a path
  of its own: the interfaces \<open>fooBar\<close> and \<open>foo_bar\<close> of \<open>twins_svc\<close> have the same file
  stem, so the two documents come under one path.
\<close>

theorem documents_missing_or_under_one_path:
  "length (interfaces echo_svc) = 1
   \<and> \<not> (\<exists>n fs. generateDocs n sample_env echo_svc = Some fs)
   \<and> i_name foo_bar_intf \<noteq> i_name foo_bar_snake_intf
   \<and> map_option (map path) (generateDocs 1 sample_env twins_svc)
       = Some [[''api'', ''v1'', ''foo_bar_service.md''], [''api'', ''v1'', ''foo_bar_service.md'']]"
proof -
  have "types n sample_env echo_svc echo_intf = None" for n
    by (cases "types n sample_env echo_svc echo_intf")
       (simp_all add: types_Some_iff echo_roots ping_diverges)
  then have "buildInterfaceDocs n sample_env echo_svc echo_intf = None" for n
    by (simp add: buildInterfaceDocs_def)
  then have "generateDocs n sample_env echo_svc = None" for n
    by (simp add: generateDocs_def echo_svc_def buildInterfaceDocsFile_def)
  then have "length (interfaces echo_svc) = 1
      \<and> \<not> (\<exists>n fs. generateDocs n sample_env echo_svc = Some fs)"
    by (simp add: echo_svc_def)
  moreover have "i_name foo_bar_intf \<noteq> i_name foo_bar_snake_intf"
    by code_simp
  moreover have "map_option (map path) (generateDocs 1 sample_env twins_svc)
       = Some [[''api'', ''v1'', ''foo_bar_service.md''], [''api'', ''v1'', ''foo_bar_service.md'']]"
    by code_simp
  ultimately show ?thesis by (intro conjI) simp_all
qed

text \<open>The paths of the files are distinct exactly when the file stems of the interfaces are.\<close>

lemma distinct_paths_iff:
  "distinct (map (\<lambda>intf. buildInterfaceDocsFilepath env intf svc) is)
     = distinct (map (file_stem env) is)"
proof -
  define g where
    "g = (\<lambda>stem. map (snake env) (split ''::'' (buildInterfaceNamespace env svc)) @ [stem @ ''.md''])"
  have inj: "inj_on g A" for A by (rule inj_onI) (simp add: g_def)
  have "distinct (map g (map (file_stem env) is)) = distinct (map (file_stem env) is)"
    unfolding distinct_map[of g] using inj by blast
  moreover have "map g (map (file_stem env) is)
      = map (\<lambda>intf. buildInterfaceDocsFilepath env intf svc) is"
    by (simp add: g_def buildInterfaceDocsFilepath_def file_stem_def)
  ultimately show ?thesis by (simp only:)
qed

text \<open>
  C7, amended. When no interface of the model reaches a type that lies on a cycle of
  references, the generator returns, at every depth above the number of types in the
  registry, the same list of files: as many files as the model has interfaces, the file at
  each position being the document of the interface at that position, under the path of
  that interface. The paths of the files are distinct exactly when the file stems of the
  interfaces are; two interfaces with the same stem share a path. When some interface
  reaches a type that lies on a cycle, the generator returns at no depth.
\<close>

theorem one_document_per_interface:
  "((\<forall>intf\<in>set (interfaces svc). \<not> cyclic svc intf) \<longrightarrow>
      (\<exists>fs. (\<forall>n>length (svc_types svc). generateDocs n env svc = Some fs)
           \<and> length fs = length (interfaces svc)
           \<and> (\<forall>i<length (interfaces svc).
                 buildInterfaceDocsFile (Suc (length (svc_types svc))) env svc (interfaces svc ! i)
                   = Some (fs ! i))
           \<and> map path fs = map (\<lambda>intf. buildInterfaceDocsFilepath env intf svc) (interfaces svc)
           \<and> distinct (map path fs) = distinct (map (file_stem env) (interfaces svc))))
   \<and> ((\<exists>intf\<in>set (interfaces svc). cyclic svc intf) \<longrightarrow>
        (\<forall>n. generateDocs n env svc = None))"
proof (intro conjI impI allI)
  assume "\<forall>intf\<in>set (interfaces svc). \<not> cyclic svc intf"
  then obtain fs where fs: "generateDocs (Suc (length (svc_types svc))) env svc = Some fs"
    using generateDocs_acyclic[where svc = svc and env = env] by blast
  have all: "\<forall>n>length (svc_types svc). generateDocs n env svc = Some fs"
    using generateDocs_mono[OF fs] by (simp add: Suc_le_eq)
  have b: "build (Suc (length (svc_types svc))) env svc (interfaces svc) = Some fs"
    using fs by (simp add: generateDocs_def)
  have len: "length fs = length (interfaces svc)"
    using b by (rule build_length)
  have each: "\<forall>i<length (interfaces svc).
      buildInterfaceDocsFile (Suc (length (svc_types svc))) env svc (interfaces svc ! i)
        = Some (fs ! i)"
    using build_nth[OF b] by blast
  have paths: "map path fs = map (\<lambda>intf. buildInterfaceDocsFilepath env intf svc) (interfaces svc)"
    using b by (rule build_paths)
  have "distinct (map path fs) = distinct (map (file_stem env) (interfaces svc))"
    unfolding paths by (rule distinct_paths_iff)
  with all len each paths
  show "\<exists>fs. (\<forall>n>length (svc_types svc). generateDocs n env svc = Some fs)
           \<and> length fs = length (interfaces svc)
           \<and> (\<forall>i<length (interfaces svc).
                 buildInterfaceDocsFile (Suc (length (svc_types svc))) env svc (interfaces svc ! i)
                   = Some (fs ! i))
           \<and> map path fs = map (\<lambda>intf. buildInterfaceDocsFilepath env intf svc) (interfaces svc)
           \<and> distinct (map path fs) = distinct (map (file_stem env) (interfaces svc))"
    by blast
next
  fix n assume "\<exists>intf\<in>set (interfaces svc). cyclic svc intf"
  then obtain intf where "intf \<in> set (interfaces svc)" "cyclic svc intf" by blast
  then show "generateDocs n env svc = None" by (rule generateDocs_cyclic)
qed

theorem one_document_per_interface_witness:
  "(\<exists>fs. generateDocs 3 sample_env shop_svc = Some fs
        \<and> length fs = 2
        \<and> map path fs = [[''api'', ''v1'', ''widgets_service.md''],
                          [''api'', ''v1'', ''adoptions_service.md'']]
        \<and> distinct (map path fs))
   \<and> (\<forall>n. generateDocs n sample_env echo_svc = None)"
proof -
  have l: "length (svc_types shop_svc) = 2" "length (interfaces shop_svc) = 2"
    by code_simp+
  have p: "map (\<lambda>intf. buildInterfaceDocsFilepath sample_env intf shop_svc) (interfaces shop_svc)
             = [[''api'', ''v1'', ''widgets_service.md''], [''api'', ''v1'', ''adoptions_service.md'']]"
    by code_simp
  have d: "distinct [[''api'', ''v1'', ''widgets_service.md''],
                     [''api'', ''v1'', ''adoptions_service.md'']]"
    by code_simp
  have a: "\<forall>intf\<in>set (interfaces shop_svc). \<not> cyclic shop_svc intf"
    using shop_acyclic by blast
  obtain fs where fs: "\<forall>n>2. generateDocs n sample_env shop_svc = Some fs"
    and len: "length fs = 2"
    and paths: "map path fs
      = map (\<lambda>intf. buildInterfaceDocsFilepath sample_env intf shop_svc) (interfaces shop_svc)"
    using one_document_per_interface[where svc = shop_svc and env = sample_env] a
    unfolding l by blast
  have g: "generateDocs 3 sample_env shop_svc = Some fs" using fs by simp
  have pp: "map path fs = [[''api'', ''v1'', ''widgets_service.md''],
                          [''api'', ''v1'', ''adoptions_service.md'']]"
    using paths p by simp
  have dd: "distinct (map path fs)" unfolding pp by (rule d)
  have ee: "\<forall>n. generateDocs n sample_env echo_svc = None"
  proof -
    have "\<exists>intf\<in>set (interfaces echo_svc). cyclic echo_svc intf"
      using echo_cyclic by (simp add: echo_svc_def)
    then show ?thesis
      using one_document_per_interface[where svc = echo_svc and env = sample_env] by blast
  qed
  show ?thesis
    by (intro conjI exI[of _ fs]) (fact g len pp dd ee)+
qed

subsection \<open>C8: the output and the collation of the host\<close>

text \<open>
  C8, as stated, fails. The output is not a function of the model and the options alone:
  the lists are sorted with \<open>localeCompare\<close>, whose result is that of the locale of the
  host. Under the root collation the method \<open>tango\<close> comes before \<open>zulu\<close>; in a locale whose
  alphabet has \<open>z\<close> before \<open>t\<close> it comes after, and the same model with the same options
  gives another document.
\<close>

theorem output_changes_with_collation:
  "map m_name (methods sample_env radio_intf) = [''tango'', ''zulu'']
   \<and> map m_name (methods (sample_env\<lparr>localeCompare := et_localeCompare\<rparr>) radio_intf)
       = [''zulu'', ''tango'']
   \<and> generateDocs 1 sample_env radio_svc \<noteq> None
   \<and> generateDocs 1 (sample_env\<lparr>localeCompare := et_localeCompare\<rparr>) radio_svc \<noteq> None
   \<and> generateDocs 1 sample_env radio_svc
       \<noteq> generateDocs 1 (sample_env\<lparr>localeCompare := et_localeCompare\<rparr>) radio_svc"
  by code_simp

text \<open>
  Sorting reads the comparison on the elements of the list only.
\<close>

lemma insort_cmp_cong:
  assumes "\<And>y. y \<in> set ys \<Longrightarrow> c x y = c' x y"
  shows "insort_cmp c x ys = insort_cmp c' x ys"
  using assms by (induction ys) auto

lemma sort_cmp_cong:
  assumes "\<And>a b. a \<in> set xs \<Longrightarrow> b \<in> set xs \<Longrightarrow> c a b = c' a b"
  shows "sort_cmp c xs = sort_cmp c' xs"
  using assms
proof (induction xs)
  case Nil
  show ?case by (simp add: sort_cmp_def)
next
  case (Cons x xs)
  have ih: "sort_cmp c xs = sort_cmp c' xs" using Cons by simp
  have "insort_cmp c x (sort_cmp c' xs) = insort_cmp c' x (sort_cmp c' xs)"
    by (rule insort_cmp_cong) (simp add: set_sort_cmp Cons.prems)
  then show ?case using ih by (simp add: sort_cmp_def)
qed

text \<open>
  The types and enums that are sorted come from the registries.
\<close>

lemma types_methods_registry:
  fixes intf :: Interface
  assumes "types_methods n svc (int_methods intf) [] = Some found"
  shows "set found \<subseteq> set (svc_types svc)"
proof -
  have "set found = (\<Union>t\<in>set (roots svc intf). descendants svc t)"
    using assms add_roots_set[of n svc "roots svc intf" "[]" found]
    by (simp add: types_methods_add_roots roots_def)
  then show ?thesis
    using descendants_registry roots_resolved by fastforce
qed

lemma eresolved_in_registry: "eresolved svc e \<Longrightarrow> e \<in> set (svc_enums svc)"
  unfolding eresolved_def getEnumByName_def by (auto simp: find_Some_iff)

lemma found_enums_registry:
  "set (enums_types svc ts (enums_methods svc ms [])) \<subseteq> set (svc_enums svc)"
proof -
  have "enum_inv svc []" by (simp add: enum_inv_def)
  then have "enum_inv svc (enums_types svc ts (enums_methods svc ms []))"
    by (intro enum_inv_types enum_inv_methods)
  then show ?thesis
    by (auto simp: enum_inv_def list_all_iff dest: eresolved_in_registry)
qed

text \<open>
  A comparison that agrees with \<open>localeCompare\<close> on the names the generator sorts gives
  the same three lists.
\<close>

lemma methods_collation:
  assumes "\<forall>a\<in>sorted_names svc intf. \<forall>b\<in>sorted_names svc intf. c a b = localeCompare env a b"
  shows "methods (env\<lparr>localeCompare := c\<rparr>) intf = methods env intf"
  unfolding methods_def
  by (simp, rule sort_cmp_cong) (use assms in \<open>auto simp: sorted_names_def\<close>)

lemma types_collation:
  assumes "\<forall>a\<in>sorted_names svc intf. \<forall>b\<in>sorted_names svc intf. c a b = localeCompare env a b"
  shows "types n (env\<lparr>localeCompare := c\<rparr>) svc intf = types n env svc intf"
proof (cases "types_methods n svc (int_methods intf) []")
  case None
  then show ?thesis by (simp add: types_def)
next
  case (Some found)
  have "sort_cmp (\<lambda>a b. c (t_name a) (t_name b)) found
      = sort_cmp (\<lambda>a b. localeCompare env (t_name a) (t_name b)) found"
  proof (rule sort_cmp_cong)
    fix a b assume "a \<in> set found" "b \<in> set found"
    then have "t_name a \<in> sorted_names svc intf" "t_name b \<in> sorted_names svc intf"
      using types_methods_registry[OF Some] by (auto simp: sorted_names_def)
    then show "c (t_name a) (t_name b) = localeCompare env (t_name a) (t_name b)"
      using assms by blast
  qed
  then show ?thesis using Some by (simp add: types_def)
qed

lemma enums_collation:
  assumes "\<forall>a\<in>sorted_names svc intf. \<forall>b\<in>sorted_names svc intf. c a b = localeCompare env a b"
  shows "enums n (env\<lparr>localeCompare := c\<rparr>) svc intf = enums n env svc intf"
proof (cases "types n env svc intf")
  case None
  then show ?thesis by (simp add: enums_def types_collation[OF assms])
next
  case (Some ts)
  let ?found = "enums_types svc ts (enums_methods svc (int_methods intf) [])"
  have "sort_cmp (\<lambda>a b. c (e_name a) (e_name b)) ?found
      = sort_cmp (\<lambda>a b. localeCompare env (e_name a) (e_name b)) ?found"
  proof (rule sort_cmp_cong)
    fix a b assume "a \<in> set ?found" "b \<in> set ?found"
    then have "e_name a \<in> sorted_names svc intf" "e_name b \<in> sorted_names svc intf"
      using found_enums_registry[of svc ts "int_methods intf"] by (auto simp: sorted_names_def)
    then show "c (e_name a) (e_name b) = localeCompare env (e_name a) (e_name b)"
      using assms by blast
  qed
  then show ?thesis using Some by (simp add: enums_def types_collation[OF assms])
qed

text \<open>
  Nothing else reads \<open>localeCompare\<close>, and nothing but the banner reads \<open>warning\<close>.
\<close>

lemma toc_lines_collation:
  "toc_lines (env\<lparr>localeCompare := c\<rparr>) ms ts es = toc_lines env ms ts es"
  by (simp add: toc_lines_def cong: if_cong)

lemma buildLinkedTypeName_collation:
  "buildLinkedTypeName (env\<lparr>localeCompare := c\<rparr>) svc r = buildLinkedTypeName env svc r"
  by (simp add: buildLinkedTypeName_def buildTypeName_def Let_def cong: if_cong)

lemma section_lines_collation:
  "section_lines (env\<lparr>localeCompare := c\<rparr>) svc ms ts es = section_lines env svc ms ts es"
proof -
  have "buildMethodDocs (env\<lparr>localeCompare := c\<rparr>) svc = buildMethodDocs env svc"
    by (rule ext)
       (simp add: buildMethodDocs_def buildMethodDefinition_def buildParameter_def
          buildLinkedTypeName_collation cong: if_cong option.case_cong)
  moreover have "buildTypeDocs (env\<lparr>localeCompare := c\<rparr>) svc = buildTypeDocs env svc"
    by (rule ext)
       (simp add: buildTypeDocs_def buildProperty_def buildLinkedTypeName_collation cong: if_cong)
  moreover have "buildEnumDocs (env\<lparr>localeCompare := c\<rparr>) svc = buildEnumDocs env svc"
    by (rule ext) (simp add: buildEnumDocs_def cong: if_cong)
  ultimately show ?thesis by (simp add: section_lines_def cong: if_cong)
qed

lemma buildInterfaceDocsFile_collation:
  assumes "\<forall>a\<in>sorted_names svc intf. \<forall>b\<in>sorted_names svc intf. c a b = localeCompare env a b"
  shows "buildInterfaceDocsFile n (env\<lparr>localeCompare := c\<rparr>) svc intf
           = buildInterfaceDocsFile n env svc intf"
  by (simp add: buildInterfaceDocsFile_def buildInterfaceDocs_def buildToc_def
        types_collation[OF assms] enums_collation[OF assms] methods_collation[OF assms]
        toc_lines_collation section_lines_collation warning_lines_def
        buildInterfaceDocsFilepath_def
      cong: option.case_cong)

lemma build_collation:
  assumes "\<forall>intf\<in>set is. \<forall>a\<in>sorted_names svc intf. \<forall>b\<in>sorted_names svc intf.
             c a b = localeCompare env a b"
  shows "build n (env\<lparr>localeCompare := c\<rparr>) svc is = build n env svc is"
  using assms
  by (induction "is") (simp_all add: buildInterfaceDocsFile_collation cong: option.case_cong)

lemma generateDocs_collation:
  assumes "\<forall>intf\<in>set (interfaces svc). \<forall>a\<in>sorted_names svc intf. \<forall>b\<in>sorted_names svc intf.
             c a b = localeCompare env a b"
  shows "generateDocs n (env\<lparr>localeCompare := c\<rparr>) svc = generateDocs n env svc"
  unfolding generateDocs_def using assms by (rule build_collation)

lemma types_banner: "types n (env\<lparr>warning := w\<rparr>) svc intf = types n env svc intf"
  by (simp add: types_def cong: option.case_cong)

lemma enums_banner: "enums n (env\<lparr>warning := w\<rparr>) svc intf = enums n env svc intf"
  by (simp add: enums_def types_banner cong: option.case_cong)

lemma methods_banner: "methods (env\<lparr>warning := w\<rparr>) intf = methods env intf"
  by (simp add: methods_def)

lemma toc_lines_banner: "toc_lines (env\<lparr>warning := w\<rparr>) ms ts es = toc_lines env ms ts es"
  by (simp add: toc_lines_def cong: if_cong)

lemma buildLinkedTypeName_banner:
  "buildLinkedTypeName (env\<lparr>warning := w\<rparr>) svc r = buildLinkedTypeName env svc r"
  by (simp add: buildLinkedTypeName_def buildTypeName_def Let_def cong: if_cong)

lemma buildMethodDocs_banner:
  "buildMethodDocs (env\<lparr>warning := w\<rparr>) svc = buildMethodDocs env svc"
  by (rule ext)
     (simp add: buildMethodDocs_def buildMethodDefinition_def buildParameter_def
        buildLinkedTypeName_banner cong: if_cong option.case_cong)

lemma buildTypeDocs_banner:
  "buildTypeDocs (env\<lparr>warning := w\<rparr>) svc = buildTypeDocs env svc"
  by (rule ext)
     (simp add: buildTypeDocs_def buildProperty_def buildLinkedTypeName_banner cong: if_cong)

lemma buildEnumDocs_banner:
  "buildEnumDocs (env\<lparr>warning := w\<rparr>) svc = buildEnumDocs env svc"
  by (rule ext) (simp add: buildEnumDocs_def cong: if_cong)

lemma document_body_banner:
  "document_body (env\<lparr>warning := w\<rparr>) svc intf ts es = document_body env svc intf ts es"
  by (simp add: document_body_def section_lines_def methods_banner toc_lines_banner
        buildMethodDocs_banner buildTypeDocs_banner buildEnumDocs_banner cong: if_cong)

lemma buildInterfaceDocsFile_banner:
  assumes "buildInterfaceDocsFile n env svc intf = Some f"
    and "buildInterfaceDocsFile m (env\<lparr>warning := w\<rparr>) svc intf = Some g"
  shows "path g = path f
       \<and> (\<exists>body. contents f = from_lines (warning_lines env svc @ body)
                \<and> contents g = from_lines (warning_lines (env\<lparr>warning := w\<rparr>) svc @ body))"
proof -
  let ?k = "max n m"
  have f: "buildInterfaceDocsFile ?k env svc intf = Some f"
    using assms(1) by (rule buildInterfaceDocsFile_mono) simp
  have g: "buildInterfaceDocsFile ?k (env\<lparr>warning := w\<rparr>) svc intf = Some g"
    using assms(2) by (rule buildInterfaceDocsFile_mono) simp
  from f obtain ts es where ts: "types ?k env svc intf = Some ts"
    and es: "enums ?k env svc intf = Some es"
    and cf: "f = \<lparr>path = buildInterfaceDocsFilepath env intf svc,
                  contents = from_lines (document env svc intf ts es)\<rparr>"
    by (auto simp: buildInterfaceDocsFile_def buildInterfaceDocs_Some_iff split: option.splits)
  from g ts es have cg: "g = \<lparr>path = buildInterfaceDocsFilepath (env\<lparr>warning := w\<rparr>) intf svc,
                  contents = from_lines (document (env\<lparr>warning := w\<rparr>) svc intf ts es)\<rparr>"
    by (auto simp: buildInterfaceDocsFile_def buildInterfaceDocs_Some_iff types_banner enums_banner
             split: option.splits)
  have "path g = path f"
    by (simp add: cf cg buildInterfaceDocsFilepath_def)
  moreover have "contents f = from_lines (warning_lines env svc @ document_body env svc intf ts es)"
    by (simp add: cf document_def)
  moreover have "contents g
      = from_lines (warning_lines (env\<lparr>warning := w\<rparr>) svc @ document_body env svc intf ts es)"
    by (simp add: cg document_def document_body_banner)
  ultimately show ?thesis by blast
qed

lemma generateDocs_banner:
  assumes fs: "generateDocs n env svc = Some fs"
    and hs: "generateDocs m (env\<lparr>warning := w\<rparr>) svc = Some hs"
  shows "length hs = length fs
      \<and> (\<forall>i<length fs.
            path (hs ! i) = path (fs ! i)
            \<and> (\<exists>body. contents (fs ! i) = from_lines (warning_lines env svc @ body)
                   \<and> contents (hs ! i)
                       = from_lines (warning_lines (env\<lparr>warning := w\<rparr>) svc @ body)))"
proof -
  have bf: "build n env svc (interfaces svc) = Some fs"
    using fs by (simp add: generateDocs_def)
  have bh: "build m (env\<lparr>warning := w\<rparr>) svc (interfaces svc) = Some hs"
    using hs by (simp add: generateDocs_def)
  have len: "length fs = length (interfaces svc)" "length hs = length (interfaces svc)"
    using bf bh by (auto dest: build_length)
  have "path (hs ! i) = path (fs ! i)
      \<and> (\<exists>body. contents (fs ! i) = from_lines (warning_lines env svc @ body)
             \<and> contents (hs ! i)
                 = from_lines (warning_lines (env\<lparr>warning := w\<rparr>) svc @ body))"
    if i: "i < length fs" for i
  proof -
    have i': "i < length (interfaces svc)" using i len by simp
    show ?thesis
      using build_nth[OF bf i'] build_nth[OF bh i'] by (rule buildInterfaceDocsFile_banner)
  qed
  then show ?thesis using len by simp
qed

text \<open>
  C8, amended. The output is a function of the model, the options and the collation of
  the host on the names that are sorted (those of the methods of the interfaces and those
  in the registries of types and enums): a run under a collation that agrees with
  \<open>localeCompare\<close> on these names returns the same files, with the same paths and the same
  contents, at whatever depth it is run; with another banner the paths are the same and
  each file has the same lines after its banner. The anchors are lower-cased as ASCII.
\<close>

theorem output_determined_by_collation_of_names:
  assumes fs: "generateDocs n env svc = Some fs"
    and agree: "\<forall>intf\<in>set (interfaces svc).
                  \<forall>a\<in>sorted_names svc intf. \<forall>b\<in>sorted_names svc intf.
                    c a b = localeCompare env a b"
  shows "(\<forall>m gs. generateDocs m (env\<lparr>localeCompare := c\<rparr>) svc = Some gs \<longrightarrow> gs = fs)
       \<and> (\<forall>m w hs. generateDocs m (env\<lparr>localeCompare := c, warning := w\<rparr>) svc = Some hs \<longrightarrow>
             length hs = length fs
             \<and> (\<forall>i<length fs.
                   path (hs ! i) = path (fs ! i)
                   \<and> (\<exists>body. contents (fs ! i) = from_lines (warning_lines env svc @ body)
                          \<and> contents (hs ! i)
                              = from_lines (warning_lines
                                  (env\<lparr>localeCompare := c, warning := w\<rparr>) svc @ body))))"
proof -
  have eq: "generateDocs m (env\<lparr>localeCompare := c\<rparr>) svc = generateDocs m env svc" for m
    using agree by (rule generateDocs_collation)
  have same: "gs = fs" if gs: "generateDocs m (env\<lparr>localeCompare := c\<rparr>) svc = Some gs" for m gs
  proof -
    have "generateDocs (max n m) env svc = Some fs"
      using fs by (rule generateDocs_mono) simp
    moreover have "generateDocs (max n m) env svc = Some gs"
      using gs[unfolded eq] by (rule generateDocs_mono) simp
    ultimately show ?thesis by simp
  qed
  have banner: "length hs = length fs
      \<and> (\<forall>i<length fs.
            path (hs ! i) = path (fs ! i)
            \<and> (\<exists>body. contents (fs ! i) = from_lines (warning_lines env svc @ body)
                   \<and> contents (hs ! i)
                       = from_lines (warning_lines
                           (env\<lparr>localeCompare := c, warning := w\<rparr>) svc @ body)))"
    if hs: "generateDocs m (env\<lparr>localeCompare := c, warning := w\<rparr>) svc = Some hs" for m w hs
  proof -
    have "generateDocs n (env\<lparr>localeCompare := c\<rparr>) svc = Some fs"
      using fs by (simp add: eq)
    from generateDocs_banner[OF this hs] show ?thesis
      by (simp add: warning_lines_def)
  qed
  show ?thesis using same banner by blast
qed

theorem output_determined_by_collation_of_names_witness:
  "generateDocs 3 (sample_env\<lparr>localeCompare := et_localeCompare\<rparr>) widgets_svc
     = generateDocs 3 sample_env widgets_svc
   \<and> (\<exists>fs. generateDocs 3 sample_env widgets_svc = Some fs)"
proof -
  have n: "Suc (length (svc_types widgets_svc)) = 3"
    by code_simp
  obtain fs where fs: "generateDocs 3 sample_env widgets_svc = Some fs"
    using generateDocs_acyclic[where svc = widgets_svc and env = sample_env] widgets_acyclic
    unfolding n by blast
  obtain gs where
    gs: "generateDocs 3 (sample_env\<lparr>localeCompare := et_localeCompare\<rparr>) widgets_svc = Some gs"
    using generateDocs_acyclic[where svc = widgets_svc
        and env = "sample_env\<lparr>localeCompare := et_localeCompare\<rparr>"] widgets_acyclic
    unfolding n by blast
  have agree: "\<forall>intf\<in>set (interfaces widgets_svc).
                  \<forall>a\<in>sorted_names widgets_svc intf. \<forall>b\<in>sorted_names widgets_svc intf.
                    et_localeCompare a b = localeCompare sample_env a b"
    by code_simp
  have "gs = fs"
    using output_determined_by_collation_of_names[OF fs agree] gs by blast
  then show ?thesis using fs gs by simp
qed

subsection \<open>C9: the bullet list of parameters\<close>

text \<open>
  C9: the bullets under a method are those of its parameters in the order of the model;
  only the signature is reordered. They start at the fifth line of the method's block.
\<close>

theorem parameter_bullets_in_declaration_order:
  "take (length (parameters method)) (drop 4 (buildMethodDocs env svc method))
     = map (buildParameter env svc) (parameters method)"
  by (simp add: buildMethodDocs_def)

theorem parameter_bullets_in_declaration_order_witness:
  "take 4 (drop 4 (buildMethodDocs sample_env widgets_svc search))
     = [''- `optional_a` String (optional)'', ''- `required_b` String'',
        ''- `optional_c` String (optional)'', ''- `required_d` String'']
   \<and> buildMethodDocs sample_env widgets_svc search ! 2
     = ''`search(required_b:, required_d:, optional_a: nil, optional_c: nil)`''"
proof -
  have "map (buildParameter sample_env widgets_svc) (parameters search)
     = [''- `optional_a` String (optional)'', ''- `required_b` String'',
        ''- `optional_c` String (optional)'', ''- `required_d` String'']"
    by code_simp
  moreover have "length (parameters search) = 4"
    by code_simp
  moreover have "buildMethodDocs sample_env widgets_svc search ! 2
     = ''`search(required_b:, required_d:, optional_a: nil, optional_c: nil)`''"
    by code_simp
  ultimately show ?thesis
    using parameter_bullets_in_declaration_order[of search sample_env widgets_svc] by simp
qed

subsection \<open>C10: the values of an enum\<close>

text \<open>
  C10: the block of an enum is its heading, its qualified name and one bullet for each of
  its values, in the order of the model; nothing sorts the values.
\<close>

theorem enum_values_in_declaration_order:
  "buildEnumDocs env svc e =
     take 3 (buildEnumDocs env svc e)
       @ (if e_values e = [] then [] else [''''])
       @ map (\<lambda>v. ''- `'' @ v @ ''`'') (e_values e)
       @ ['''']
   \<and> length (buildEnumDocs env svc e)
       = length (e_values e) + (if e_values e = [] then 4 else 5)"
  by (simp add: buildEnumDocs_def)

theorem enum_values_in_declaration_order_witness:
  "buildEnumDocs sample_env widgets_svc status_enum
     = [''### Status'', '''', ''`Api::V1::Types::Status`'', '''',
        ''- `pending`'', ''- `active`'', ''- `closed`'', '''']"
proof -
  have "take 3 (buildEnumDocs sample_env widgets_svc status_enum)
          = [''### Status'', '''', ''`Api::V1::Types::Status`'']"
    by code_simp
  moreover have "e_values status_enum = [''pending'', ''active'', ''closed'']"
    by code_simp
  ultimately show ?thesis
    using enum_values_in_declaration_order[of sample_env widgets_svc status_enum] by simp
qed

end
